theory Spec2Isabelle
  imports Complex_Main "HOL-Library.Sublist"
begin

section \<open>Python strings\<close>

text \<open>
  A Python \<open>str\<close> is a sequence of Unicode code points; \<open>len\<close>, slicing and
  \<open>in\<close> count code points. The model writes a string as the list of its code
  points, so that \<open>length\<close> and \<open>take\<close> count what Python counts. A literal of
  the source is written \<open>py ''...''\<close>.
\<close>

type_synonym codepoint = nat
type_synonym pystr = "codepoint list"

abbreviation py :: "string \<Rightarrow> pystr" where
  "py s \<equiv> map (of_char :: char \<Rightarrow> nat) s"

text \<open>
  \<open>str.isspace\<close> for one code point: the whitespace code points of the Unicode
  database, which are the separators of \<open>str.split()\<close> without argument.
\<close>

definition isspace :: "codepoint \<Rightarrow> bool" where
  "isspace c \<longleftrightarrow>
     (9 \<le> c \<and> c \<le> 13) \<or> (28 \<le> c \<and> c \<le> 32) \<or> c = 133 \<or> c = 160 \<or> c = 5760 \<or>
     (8192 \<le> c \<and> c \<le> 8202) \<or> c = 8232 \<or> c = 8233 \<or> c = 8239 \<or> c = 8287 \<or> c = 12288"

text \<open>
  \<open>text.split()\<close>: the maximal runs of non-whitespace code points, in order; leading
  and trailing whitespace gives no empty word.
\<close>

function str_split :: "pystr \<Rightarrow> pystr list" where
  "str_split s =
     (let s' = dropWhile isspace s
      in if s' = [] then []
         else takeWhile (\<lambda>c. \<not> isspace c) s' # str_split (dropWhile (\<lambda>c. \<not> isspace c) s'))"
  by pat_completeness auto
termination
proof (relation "measure length")
  fix s s' :: pystr
  assume s': "s' = dropWhile isspace s" and ne: "s' \<noteq> []"
  from ne obtain c cs where c: "s' = c # cs" by (cases s') auto
  have "\<not> isspace c" using s' c hd_dropWhile [of isspace s] by (metis list.sel(1) ne)
  then have "dropWhile (\<lambda>c. \<not> isspace c) s' = dropWhile (\<lambda>c. \<not> isspace c) cs"
    using c by simp
  then have "length (dropWhile (\<lambda>c. \<not> isspace c) s') \<le> length cs"
    by (simp add: length_dropWhile_le)
  also have "length cs < length s'" using c by simp
  also have "length s' \<le> length s" using s' by (simp add: length_dropWhile_le)
  finally show "(dropWhile (\<lambda>c. \<not> isspace c) s', s) \<in> measure length" by simp
qed simp

declare str_split.simps [simp del]

text \<open>\<open>sep.join(words)\<close>.\<close>

fun str_join :: "pystr \<Rightarrow> pystr list \<Rightarrow> pystr" where
  "str_join sep [] = []"
| "str_join sep [w] = w"
| "str_join sep (w # v # ws) = w @ sep @ str_join sep (v # ws)"

text \<open>
  \<open>s.replace(old, new)\<close>: the occurrences of \<open>old\<close> are found from the left and do
  not overlap; the text put in is not searched again. For an empty \<open>old\<close> Python puts
  \<open>new\<close> before every code point and at the end.
\<close>

function str_replace :: "pystr \<Rightarrow> pystr \<Rightarrow> pystr \<Rightarrow> pystr" where
  "str_replace old new s =
     (if old = [] then new @ concat (map (\<lambda>c. c # new) s)
      else if s = [] then []
      else if prefix old s then new @ str_replace old new (drop (length old) s)
      else hd s # str_replace old new (tl s))"
  by pat_completeness auto
termination
  by (relation "measure (\<lambda>(old, new, s). length s)") (auto simp: neq_Nil_conv)

declare str_replace.simps [simp del]

text \<open>
  \<open>re.sub(r'<[^>]+>', '', text)\<close>. The pattern matches at a \<open><\<close> that is followed by
  at least one code point other than \<open>>\<close> and then, with no \<open>>\<close> in between, by a
  \<open>>\<close>; the class \<open>[^>]\<close> takes line breaks too. Matches are searched from the left,
  and the search goes on after the end of a match. \<open>tag_rest cs\<close> is the text after
  the match when the text after a \<open><\<close> is \<open>cs\<close>.
\<close>

definition tag_rest :: "pystr \<Rightarrow> pystr option" where
  "tag_rest cs =
     (let body = takeWhile (\<lambda>c. c \<noteq> 62) cs; rest = dropWhile (\<lambda>c. c \<noteq> 62) cs
      in if body \<noteq> [] \<and> rest \<noteq> [] then Some (tl rest) else None)"

function strip_tags :: "pystr \<Rightarrow> pystr" where
  "strip_tags [] = []"
| "strip_tags (c # cs) =
     (if c = 60
      then (case tag_rest cs of Some rest \<Rightarrow> strip_tags rest | None \<Rightarrow> c # strip_tags cs)
      else c # strip_tags cs)"
  by pat_completeness auto
termination
proof (relation "measure length")
  fix c :: codepoint and cs rest :: pystr
  assume "tag_rest cs = Some rest"
  then have "rest = tl (dropWhile (\<lambda>c. c \<noteq> 62) cs)"
    by (auto simp: tag_rest_def Let_def split: if_splits)
  then have "length rest \<le> length cs"
    using length_dropWhile_le [of "\<lambda>c. c \<noteq> 62" cs] by simp
  then show "(rest, c # cs) \<in> measure length" by simp
qed simp_all

section \<open>Utility functions\<close>

text \<open>
  \<open>clean_text\<close>: an empty text gives the empty string; otherwise the tags are
  removed, the words are joined by single spaces, and the three entities are
  replaced, in this order.
\<close>

definition clean_text :: "pystr \<Rightarrow> pystr" where
  "clean_text text =
     (if text = [] then []
      else
        let text = strip_tags text;
            text = str_join (py '' '') (str_split text);
            text = str_replace (py ''&gt;'') (py ''>'')
                     (str_replace (py ''&lt;'') (py ''<'')
                        (str_replace (py ''&amp;'') (py ''and'') text))
        in text)"


section \<open>Library functions of the feed fetcher\<close>

text \<open>
  Exceptions raised by library code carry the text of \<open>str(e)\<close>. A
  \<open>requests.exceptions.RequestException\<close> also carries its \<open>response\<close>, when it has
  one: whether the response is \<open>ok\<close> (the truth value of a \<open>Response\<close>), and what
  \<open>response.json()\<close> gives: it raises (\<open>Inl\<close>, with the message), or it is an object
  whose \<open>errorMessage\<close> is present or not.
\<close>

datatype resp = Resp (resp_ok: bool) (resp_json: "pystr + pystr option")

datatype pyexc =
    RequestException pystr "resp option"
  | OtherException pystr

fun exc_str :: "pyexc \<Rightarrow> pystr" where
  "exc_str (RequestException msg r) = msg"
| "exc_str (OtherException msg) = msg"

text \<open>
  A feed entry, as far as the fetcher reads it: the keys \<open>title\<close>, \<open>summary\<close> and
  \<open>description\<close>, each present or absent.
\<close>

record entry =
  entry_title :: "pystr option"
  entry_summary :: "pystr option"
  entry_description :: "pystr option"

text \<open>
  The library functions the fetcher calls are parameters of the model: \<open>str.lower\<close>
  and \<open>str.title\<close> (they depend on the Unicode database), the \<open>netloc\<close> of
  \<open>urllib.parse.urlparse\<close> (which may raise), and \<open>feedparser.parse\<close> followed by
  \<open>.entries\<close> (which may raise).
\<close>

record pylib =
  str_lower :: "pystr \<Rightarrow> pystr"
  str_title :: "pystr \<Rightarrow> pystr"
  urlparse_netloc :: "pystr \<Rightarrow> pyexc + pystr"
  feedparser_parse :: "pystr \<Rightarrow> pyexc + entry list"

text \<open>\<open>s.split(sep)\<close> for a separator of one code point: never an empty list.\<close>

fun str_split_on :: "codepoint \<Rightarrow> pystr \<Rightarrow> pystr list" where
  "str_split_on sep [] = [[]]"
| "str_split_on sep (c # cs) =
     (if c = sep then [] # str_split_on sep cs
      else (case str_split_on sep cs of
              [] \<Rightarrow> [[c]]
            | w # ws \<Rightarrow> (c # w) # ws))"

text \<open>
  \<open>xs[:n]\<close>: all of \<open>xs\<close> for \<open>None\<close>, the first \<open>n\<close> elements for \<open>n \<ge> 0\<close>, and all but
  the last \<open>-n\<close> elements for a negative \<open>n\<close>.
\<close>

definition slice_to :: "int option \<Rightarrow> 'a list \<Rightarrow> 'a list" where
  "slice_to n xs =
     (case n of
        None \<Rightarrow> xs
      | Some k \<Rightarrow> if 0 \<le> k then take (nat k) xs else take (length xs - nat (- k)) xs)"

text \<open>\<open>d.get(key, default)\<close> on a key that is present (\<open>Some\<close>) or absent.\<close>

definition dict_get :: "'a option \<Rightarrow> 'a \<Rightarrow> 'a" where
  "dict_get v dflt = (case v of Some x \<Rightarrow> x | None \<Rightarrow> dflt)"

section \<open>Source names\<close>

text \<open>The keyword table, in the order the dictionary literal is written.\<close>

definition source_mapping :: "(pystr \<times> pystr) list" where
  "source_mapping =
     [(py ''reuters'', py ''Reuters''), (py ''nytimes'', py ''New York Times''),
      (py ''techcrunch'', py ''TechCrunch''), (py ''bbc'', py ''BBC News''),
      (py ''cnn'', py ''CNN''), (py ''wsj'', py ''Wall Street Journal'')]"

text \<open>The loop over \<open>source_mapping.items()\<close>: the first key in \<open>feed_lower\<close> returns.\<close>

fun mapping_loop :: "(pystr \<times> pystr) list \<Rightarrow> pystr \<Rightarrow> pystr option" where
  "mapping_loop [] feed_lower = None"
| "mapping_loop ((key, name) # rest) feed_lower =
     (if sublist key feed_lower then Some name else mapping_loop rest feed_lower)"

text \<open>
  \<open>get_source_name\<close>. After the loop, everything is inside \<open>try\<close> with a bare
  \<open>except\<close>: an exception of \<open>urlparse\<close> and an index error of \<open>[0]\<close> both give the
  placeholder.
\<close>

definition get_source_name :: "pylib \<Rightarrow> pystr \<Rightarrow> pystr" where
  "get_source_name L feed_url =
     (let feed_lower = str_lower L feed_url
      in case mapping_loop source_mapping feed_lower of
           Some name \<Rightarrow> name
         | None \<Rightarrow>
             (case urlparse_netloc L feed_url of
                Inl e \<Rightarrow> py ''News Source''
              | Inr domain \<Rightarrow>
                  (case str_split_on 46 (str_replace (py ''www.'') [] domain) of
                     [] \<Rightarrow> py ''News Source''
                   | label # labels \<Rightarrow> str_title L label)))"

section \<open>Feed fetcher\<close>

record article =
  source :: pystr
  title :: pystr
  summary :: pystr

text \<open>The loop over \<open>feed.entries[:max_per_feed]\<close>, appending to \<open>all_articles\<close>.\<close>

fun entries_loop :: "pystr \<Rightarrow> entry list \<Rightarrow> article list \<Rightarrow> article list" where
  "entries_loop source_name [] all_articles = all_articles"
| "entries_loop source_name (entry # rest) all_articles =
     (let title = clean_text (dict_get (entry_title entry) []);
          summary =
            take 197 (clean_text (dict_get (entry_summary entry)
                                    (dict_get (entry_description entry) [])))
            @ py ''...''
      in entries_loop source_name rest
           (if title \<noteq> []
            then all_articles @ [\<lparr>source = source_name, title = title, summary = summary\<rparr>]
            else all_articles))"

text \<open>
  The loop over \<open>feed_urls\<close>, on the pair \<open>(all_articles, sources_used)\<close>. A feed whose
  parse raises, or that has no entry, leaves the pair as it is and the loop goes on.
\<close>

fun feeds_loop ::
  "pylib \<Rightarrow> int option \<Rightarrow> pystr list \<Rightarrow> article list \<times> pystr list \<Rightarrow> article list \<times> pystr list"
where
  "feeds_loop L max_per_feed [] (all_articles, sources_used) = (all_articles, sources_used)"
| "feeds_loop L max_per_feed (feed_url # rest) (all_articles, sources_used) =
     (case feedparser_parse L feed_url of
        Inl e \<Rightarrow> feeds_loop L max_per_feed rest (all_articles, sources_used)
      | Inr entries \<Rightarrow>
          if entries = [] then feeds_loop L max_per_feed rest (all_articles, sources_used)
          else
            let source_name = get_source_name L feed_url;
                sources_used =
                  (if source_name \<notin> set sources_used then sources_used @ [source_name]
                   else sources_used)
            in feeds_loop L max_per_feed rest
                 (entries_loop source_name (slice_to max_per_feed entries) all_articles,
                  sources_used))"

definition fetch_rss_articles ::
  "pylib \<Rightarrow> pystr list \<Rightarrow> int option \<Rightarrow> article list \<times> pystr list"
where
  "fetch_rss_articles L feed_urls max_per_feed = feeds_loop L max_per_feed feed_urls ([], [])"

section \<open>Briefing composer\<close>

text \<open>
  The text one round of the loop adds for the article at index \<open>i\<close>. The date of
  \<open>datetime.now()\<close>, formatted, is the parameter \<open>current_date\<close>.
\<close>

definition article_block :: "nat \<Rightarrow> article \<Rightarrow> pystr" where
  "article_block i article =
     (let pfx = (if i = 0 then py ''From'' else py ''Next, from'')
      in pfx @ py '' '' @ source article @ py ''... '' @ title article @ py ''. ''
         @ summary article @ [10, 10])"

fun briefing_loop :: "nat \<Rightarrow> article list \<Rightarrow> pystr \<Rightarrow> pystr" where
  "briefing_loop i [] briefing = briefing"
| "briefing_loop i (article # rest) briefing =
     briefing_loop (Suc i) rest (briefing @ article_block i article)"

definition format_news_briefing :: "pystr \<Rightarrow> article list \<Rightarrow> pystr" where
  "format_news_briefing current_date articles =
     (if articles = [] then py ''No news articles available at this time.''
      else
        let briefing =
              py ''Good morning from Durgapur. Here is your news briefing for ''
              @ current_date @ py ''.'' @ [10, 10];
            briefing = briefing_loop 0 (slice_to (Some 20) articles) briefing
        in briefing @ py ''That concludes your news briefing. Have a great day!'')"

section \<open>Audio mixer\<close>

text \<open>
  A \<open>pydub.AudioSegment\<close>, as far as the mixer depends on it: its frame rate and its
  frames, a frame being the samples of all channels at one instant, of a type \<open>'s\<close>
  left open. A segment that pydub has decoded has a positive frame rate. Where pydub
  computes with floats, the model computes with exact numbers.
\<close>

type_synonym bytes = "nat list"

record 's segment =
  frame_rate :: nat
  frames :: "'s list"

text \<open>Python's \<open>round(a / b)\<close>: the nearest integer, and the even one at a tie.\<close>

definition py_round :: "nat \<Rightarrow> nat \<Rightarrow> nat" where
  "py_round a b =
     (let q = a div b; r = a mod b
      in if 2 * r < b then q else if b < 2 * r then q + 1 else if even q then q else q + 1)"

text \<open>
  \<open>len(segment)\<close> is \<open>round(1000 * (frame_count / frame_rate))\<close>, a number of
  milliseconds; \<open>_parse_position(ms)\<close> is \<open>int(ms * (frame_rate / 1000.0))\<close>, a number
  of frames.
\<close>

definition seg_len :: "'s segment \<Rightarrow> nat" where
  "seg_len seg = py_round (1000 * length (frames seg)) (frame_rate seg)"

definition parse_position :: "'s segment \<Rightarrow> nat \<Rightarrow> nat" where
  "parse_position seg ms = (ms * frame_rate seg) div 1000"

text \<open>\<open>segment * n\<close>: the frames of the segment, \<open>n\<close> times.\<close>

definition seg_mul :: "'s segment \<Rightarrow> nat \<Rightarrow> 's segment" where
  "seg_mul seg n = seg\<lparr>frames := concat (replicate n (frames seg))\<rparr>"

text \<open>
  \<open>segment[:stop]\<close> and \<open>segment[0:]\<close> (then \<open>stop\<close> is \<open>len(segment)\<close>), for \<open>stop \<ge> 0\<close>:
  \<open>stop\<close> is cut down to \<open>len(segment)\<close> and turned into a number of frames; the
  frames up to there are kept. When the segment has fewer frames than that, the
  missing ones are filled with silence, made of the first frame kept (none when no
  frame is kept); more missing frames than 2 milliseconds hold raise
  \<open>TooManyMissingFrames\<close>.
\<close>

definition seg_slice_to :: "('s \<Rightarrow> 's) \<Rightarrow> nat \<Rightarrow> 's segment \<Rightarrow> pyexc + 's segment" where
  "seg_slice_to silent stop seg =
     (let end = parse_position seg (min stop (seg_len seg));
          data = take end (frames seg);
          missing_frames = end - length data
      in if missing_frames \<noteq> 0
         then (if 2 * frame_rate seg < 1000 * missing_frames
               then Inl (OtherException (py ''TooManyMissingFrames''))
               else
                 (let silence = map silent (take 1 data)
                  in Inr (seg\<lparr>frames := data @ concat (replicate missing_frames silence)\<rparr>)))
         else Inr (seg\<lparr>frames := data\<rparr>))"

text \<open>
  What the mixer finds around it: whether FFmpeg was found at start-up, the decoders
  of the speech bytes and of the background file (each may raise), whether the
  background file exists, the operations on one frame (gain, sum of two frames,
  silence), pydub's \<open>_sync\<close>, which brings two segments to the same frame rate, channels
  and sample width, and whether an export or a plain write of the output file raises.
  The name of the output file is a fresh random token and is left out: the result of
  the mixer is what was saved.
\<close>

record 's audio_env =
  ffmpeg_available :: bool
  from_file_mp3 :: "bytes \<Rightarrow> pyexc + 's segment"
  background_exists :: bool
  from_file_background :: "pyexc + 's segment"
  apply_gain :: "int \<Rightarrow> 's \<Rightarrow> 's"
  mix_sample :: "'s \<Rightarrow> 's \<Rightarrow> 's"
  silent_frame :: "'s \<Rightarrow> 's"
  sync :: "'s segment \<Rightarrow> 's segment \<Rightarrow> 's segment \<times> 's segment"
  export_raises :: "'s segment \<Rightarrow> pyexc option"
  write_raises :: "bytes \<Rightarrow> pyexc option"

datatype 's saved =
    RawBytes bytes
  | SpeechOnly "'s segment"
  | Mixed "'s segment"

text \<open>\<open>segment - 15\<close>, that is \<open>apply_gain(-15)\<close>: every frame at the new gain.\<close>

definition seg_gain :: "'s audio_env \<Rightarrow> int \<Rightarrow> 's segment \<Rightarrow> 's segment" where
  "seg_gain env g seg = seg\<lparr>frames := map (apply_gain env g) (frames seg)\<rparr>"

text \<open>
  \<open>base.overlay(other)\<close>, at position 0 and once. After \<open>_sync\<close> the output is the
  data of \<open>seg1[:0]\<close>, then the sum of \<open>seg1[0:]\<close> and \<open>seg2\<close> as far as \<open>seg2\<close> goes,
  \<open>seg2\<close> being cut at the end of \<open>seg1[0:]\<close>, then the rest of \<open>seg1[0:]\<close>.
\<close>

definition seg_overlay :: "'s audio_env \<Rightarrow> 's segment \<Rightarrow> 's segment \<Rightarrow> pyexc + 's segment" where
  "seg_overlay env base other =
     (case sync env base other of
        (seg1, seg2) \<Rightarrow>
          (case seg_slice_to (silent_frame env) 0 seg1 of
             Inl e \<Rightarrow> Inl e
           | Inr head \<Rightarrow>
               (case seg_slice_to (silent_frame env) (seg_len seg1) seg1 of
                  Inl e \<Rightarrow> Inl e
                | Inr rest \<Rightarrow>
                    (let data1 = frames rest;
                         data2 = take (length data1) (frames seg2)
                     in Inr (seg1\<lparr>frames :=
                               frames head
                               @ map2 (mix_sample env) (take (length data2) data1) data2
                               @ drop (length data2) data1\<rparr>)))))"

text \<open>
  The looping of the background: \<open>speech_duration // len(background_music)\<close> raises
  \<open>ZeroDivisionError\<close> for a background of duration 0 (the wording of its message
  depends on the Python version).
\<close>

definition loop_background :: "'s segment \<Rightarrow> nat \<Rightarrow> pyexc + 's segment" where
  "loop_background background_music speech_duration =
     (if seg_len background_music < speech_duration
      then (if seg_len background_music = 0
            then Inl (OtherException (py ''integer division or modulo by zero''))
            else
              (let loops_needed = speech_duration div seg_len background_music + 1
               in Inr (seg_mul background_music loops_needed)))
      else Inr background_music)"

text \<open>
  The mixing proper, from \<open>speech_duration = len(speech_audio)\<close> to \<open>final_audio\<close>.
\<close>

definition mix_segments :: "'s audio_env \<Rightarrow> 's segment \<Rightarrow> 's segment \<Rightarrow> pyexc + 's segment" where
  "mix_segments env speech_audio background_music =
     (let speech_duration = seg_len speech_audio
      in (case loop_background background_music speech_duration of
            Inl e \<Rightarrow> Inl e
          | Inr background_music \<Rightarrow>
              (case seg_slice_to (silent_frame env) speech_duration background_music of
                 Inl e \<Rightarrow> Inl e
               | Inr background_music \<Rightarrow>
                   (let quiet_music = seg_gain env (- 15) background_music
                    in seg_overlay env quiet_music speech_audio))))"

text \<open>The body of the outer \<open>try\<close> of \<open>mix_audio_with_music\<close>.\<close>

definition mix_body :: "'s audio_env \<Rightarrow> bytes \<Rightarrow> pyexc + 's saved" where
  "mix_body env speech_content =
     (if \<not> ffmpeg_available env
      then (case write_raises env speech_content of
              Some e \<Rightarrow> Inl e
            | None \<Rightarrow> Inr (RawBytes speech_content))
      else
        (case from_file_mp3 env speech_content of
           Inl e \<Rightarrow> Inl e
         | Inr speech_audio \<Rightarrow>
             (if \<not> background_exists env
              then (case export_raises env speech_audio of
                      Some e \<Rightarrow> Inl e
                    | None \<Rightarrow> Inr (SpeechOnly speech_audio))
              else
                (case from_file_background env of
                   Inl e \<Rightarrow> Inl e
                 | Inr background_music \<Rightarrow>
                     (case mix_segments env speech_audio background_music of
                        Inl e \<Rightarrow> Inl e
                      | Inr final_audio \<Rightarrow>
                          (case export_raises env final_audio of
                             Some e \<Rightarrow> Inl e
                           | None \<Rightarrow> Inr (Mixed final_audio)))))))"

text \<open>
  What a request handler raises: an \<open>HTTPException\<close> with status code and detail,
  or a library exception that nothing caught.
\<close>

datatype raised =
    HTTPException nat pystr
  | Uncaught pyexc

text \<open>
  \<open>mix_audio_with_music\<close>: any exception of the body leads to the fallback, a plain
  write of the speech bytes; when that write raises too, the mixer raises.
\<close>

definition mix_audio_with_music :: "'s audio_env \<Rightarrow> bytes \<Rightarrow> raised + 's saved" where
  "mix_audio_with_music env speech_content =
     (case mix_body env speech_content of
        Inr s \<Rightarrow> Inr s
      | Inl e \<Rightarrow>
          (case write_raises env speech_content of
             None \<Rightarrow> Inr (RawBytes speech_content)
           | Some fallback_error \<Rightarrow>
               Inl (HTTPException 500 (py ''Failed to process audio: '' @ exc_str e))))"

section \<open>Speech synthesizer client\<close>

text \<open>
  The calls that leave the process or write a file, in the order they are made.
\<close>

datatype 's event =
    FeedRequest pystr
  | MurfPost pystr pystr pystr
  | AudioDownload pystr
  | FileSaved "'s saved"

text \<open>The JSON object of a Murf response, as far as the client reads it.\<close>

record murf_response =
  audioFile :: "pystr option"
  audioLengthInSeconds :: "real option"
  consumedCharacterCount :: "int option"
  remainingCharacterCount :: "int option"

text \<open>
  \<open>murf_post text voice_id audio_format\<close> is \<open>requests.post\<close> with
  \<open>raise_for_status\<close> and \<open>response.json()\<close>; \<open>requests_get url\<close> is \<open>requests.get\<close>
  with \<open>raise_for_status\<close> and \<open>.content\<close>.
\<close>

record 's murf_env =
  murf_post :: "pystr \<Rightarrow> pystr \<Rightarrow> pystr \<Rightarrow> pyexc + murf_response"
  requests_get :: "pystr \<Rightarrow> pyexc + bytes"
  audio :: "'s audio_env"

text \<open>
  The dictionary \<open>generate_audio_with_murf\<close> returns; \<open>audio_url\<close>, the path of the
  output file, is written as the file saved under it.
\<close>

record 's audio_data =
  audio_url :: "'s saved"
  audio_length_seconds :: real
  characters_used :: int
  characters_remaining :: int

text \<open>
  The handler \<open>except requests.exceptions.RequestException as e\<close>. A \<open>Response\<close> is
  true when its status is below 400, so the \<open>errorMessage\<close> of the body is read
  only then; \<open>json()\<close> raising inside the handler lets that exception out. Any other
  exception passes through.
\<close>

fun on_request_exception :: "pyexc \<Rightarrow> raised" where
  "on_request_exception (OtherException msg) = Uncaught (OtherException msg)"
| "on_request_exception (RequestException msg None) =
     HTTPException 500 (py ''Murf API communication error: '' @ msg)"
| "on_request_exception (RequestException msg (Some r)) =
     (if resp_ok r
      then (case resp_json r of
              Inl m \<Rightarrow> Uncaught (OtherException m)
            | Inr error_message \<Rightarrow>
                HTTPException 500
                  (py ''Murf API communication error: '' @ dict_get error_message msg))
      else HTTPException 500 (py ''Murf API communication error: '' @ msg))"

definition generate_audio_with_murf ::
  "'s murf_env \<Rightarrow> pystr \<Rightarrow> pystr \<Rightarrow> pystr \<Rightarrow> 's event list \<times> (raised + 's audio_data)"
where
  "generate_audio_with_murf env text voice_id audio_format =
     (case murf_post env text voice_id audio_format of
        Inl e \<Rightarrow> ([MurfPost text voice_id audio_format], Inl (on_request_exception e))
      | Inr response_data \<Rightarrow>
          (case audioFile response_data of
             None \<Rightarrow>
               ([MurfPost text voice_id audio_format],
                Inl (HTTPException 500 (py ''No audio file URL in Murf response'')))
           | Some murf_audio_url \<Rightarrow>
               (if murf_audio_url = []
                then ([MurfPost text voice_id audio_format],
                      Inl (HTTPException 500 (py ''No audio file URL in Murf response'')))
                else
                  (case requests_get env murf_audio_url of
                     Inl e \<Rightarrow>
                       ([MurfPost text voice_id audio_format, AudioDownload murf_audio_url],
                        Inl (on_request_exception e))
                   | Inr content \<Rightarrow>
                       (case mix_audio_with_music (audio env) content of
                          Inl h \<Rightarrow>
                            ([MurfPost text voice_id audio_format,
                              AudioDownload murf_audio_url],
                             Inl h)
                        | Inr final_audio \<Rightarrow>
                            ([MurfPost text voice_id audio_format,
                              AudioDownload murf_audio_url, FileSaved final_audio],
                             Inr \<lparr>audio_url = final_audio,
                                  audio_length_seconds =
                                    dict_get (audioLengthInSeconds response_data) 0,
                                  characters_used =
                                    dict_get (consumedCharacterCount response_data) 0,
                                  characters_remaining =
                                    dict_get (remainingCharacterCount response_data) 0\<rparr>))))))"

section \<open>Request handler\<close>

record request =
  feeds :: "pystr list"
  voice_id :: pystr
  audio_format :: pystr
  max_articles_per_feed :: "int option"

record 's briefing_response =
  success :: bool
  response_audio :: "'s audio_data"
  briefing_text :: pystr
  articles_count :: nat
  sources :: "pystr list"

text \<open>
  What the handler finds around it: the environment variable \<open>MURF_API_KEY\<close> (set
  or not), the library functions of the fetcher, the formatted date of the day, and
  the services of the synthesizer client.
\<close>

record 's handler_env =
  MURF_API_KEY :: "pystr option"
  lib :: pylib
  current_date :: pystr
  murf :: "'s murf_env"

text \<open>
  \<open>not MURF_API_KEY or 'PASTE_YOUR_API_KEY_HERE' in MURF_API_KEY\<close>.
\<close>

definition key_not_configured :: "pystr option \<Rightarrow> bool" where
  "key_not_configured k =
     (case k of
        None \<Rightarrow> True
      | Some key \<Rightarrow> key = [] \<or> sublist (py ''PASTE_YOUR_API_KEY_HERE'') key)"

text \<open>
  \<open>generate_briefing\<close>, with the external calls it makes: one feed request for every
  feed URL, in order (\<open>fetch_rss_articles\<close> parses every URL of the list once), then
  those of \<open>generate_audio_with_murf\<close>. An \<open>HTTPException\<close> is raised again as it
  is; any other exception becomes status 500.
\<close>

definition generate_briefing ::
  "'s handler_env \<Rightarrow> request \<Rightarrow> 's event list \<times> (raised + 's briefing_response)"
where
  "generate_briefing env request =
     (if feeds request = []
      then ([], Inl (HTTPException 400 (py ''No RSS feed URLs provided'')))
      else if key_not_configured (MURF_API_KEY env)
      then ([], Inl (HTTPException 500 (py ''Murf API key is not configured on the server.'')))
      else
        (case fetch_rss_articles (lib env) (feeds request) (max_articles_per_feed request) of
           (articles, sources_used) \<Rightarrow>
             (if articles = []
              then (map FeedRequest (feeds request),
                    Inl (HTTPException 400
                           (py ''Could not find any articles from the provided feeds.'')))
              else
                (let script = format_news_briefing (current_date env) articles
                 in (case generate_audio_with_murf (murf env) script
                            (voice_id request) (audio_format request) of
                       (calls, Inl (HTTPException code detail)) \<Rightarrow>
                         (map FeedRequest (feeds request) @ calls,
                          Inl (HTTPException code detail))
                     | (calls, Inl (Uncaught e)) \<Rightarrow>
                         (map FeedRequest (feeds request) @ calls,
                          Inl (HTTPException 500
                                 (py ''An unexpected error occurred: '' @ exc_str e)))
                     | (calls, Inr audio_data) \<Rightarrow>
                         (map FeedRequest (feeds request) @ calls,
                          Inr \<lparr>success = True, response_audio = audio_data,
                               briefing_text = script,
                               articles_count = length articles,
                               sources = sources_used\<rparr>))))))"

section \<open>Notions used to state the properties\<close>

text \<open>
  The parts of a briefing script as the specification names them: the dateline, the
  closing sentence, and the block of one article, \<open><transition> <source>... <title>.
  <summary>\<close> with a blank line after it. The first block has the opener \<open>From\<close>, every
  later one the connective \<open>Next, from\<close>.
\<close>

definition dateline :: "pystr \<Rightarrow> pystr" where
  "dateline d =
     py ''Good morning from Durgapur. Here is your news briefing for '' @ d @ py ''.''
     @ [10, 10]"

definition sign_off :: pystr where
  "sign_off = py ''That concludes your news briefing. Have a great day!''"

definition spoken_block :: "pystr \<Rightarrow> article \<Rightarrow> pystr" where
  "spoken_block transition a =
     transition @ py '' '' @ source a @ py ''... '' @ title a @ py ''. '' @ summary a
     @ [10, 10]"

fun article_blocks :: "article list \<Rightarrow> pystr list" where
  "article_blocks [] = []"
| "article_blocks (a # rest) =
     spoken_block (py ''From'') a # map (spoken_block (py ''Next, from'')) rest"

text \<open>
  The article the fetcher makes of an entry, and the entries it keeps: those whose
  cleaned title is not empty.
\<close>

definition raw_summary :: "entry \<Rightarrow> pystr" where
  "raw_summary e = dict_get (entry_summary e) (dict_get (entry_description e) [])"

definition entry_article :: "pystr \<Rightarrow> entry \<Rightarrow> article" where
  "entry_article source_name e =
     \<lparr>source = source_name,
      title = clean_text (dict_get (entry_title e) []),
      summary = take 197 (clean_text (raw_summary e)) @ py ''...''\<rparr>"

definition titled :: "entry \<Rightarrow> bool" where
  "titled e \<longleftrightarrow> clean_text (dict_get (entry_title e) []) \<noteq> []"

text \<open>A word: a non-empty string without whitespace.\<close>

definition word :: "pystr \<Rightarrow> bool" where
  "word w \<longleftrightarrow> w \<noteq> [] \<and> (\<forall>c \<in> set w. \<not> isspace c)"

text \<open>
  The source name as the specification words its fallback: the host name, a leading
  \<open>www.\<close> stripped, cut at the first dot, the first letter made a capital.
\<close>

definition strip_leading_www :: "pystr \<Rightarrow> pystr" where
  "strip_leading_www host = (if prefix (py ''www.'') host then drop 4 host else host)"

definition first_label :: "pystr \<Rightarrow> pystr" where
  "first_label host = takeWhile (\<lambda>c. c \<noteq> 46) host"

definition capitalize_first :: "pystr \<Rightarrow> pystr" where
  "capitalize_first s =
     (case s of
        [] \<Rightarrow> []
      | c # cs \<Rightarrow> (if 97 \<le> c \<and> c \<le> 122 then c - 32 else c) # cs)"

section \<open>An example environment\<close>

text \<open>
  \<open>str.lower\<close> and \<open>str.title\<close> on ASCII text. \<open>str.title\<close> makes a letter a capital
  when the code point before it is not a letter, and small otherwise.
\<close>

definition ascii_lower :: "pystr \<Rightarrow> pystr" where
  "ascii_lower s = map (\<lambda>c. if 65 \<le> c \<and> c \<le> 90 then c + 32 else c) s"

fun ascii_title_from :: "bool \<Rightarrow> pystr \<Rightarrow> pystr" where
  "ascii_title_from previous_is_cased [] = []"
| "ascii_title_from previous_is_cased (c # cs) =
     (if 65 \<le> c \<and> c \<le> 90
      then (if previous_is_cased then c + 32 else c) # ascii_title_from True cs
      else if 97 \<le> c \<and> c \<le> 122
      then (if previous_is_cased then c else c - 32) # ascii_title_from True cs
      else c # ascii_title_from False cs)"

definition ascii_title :: "pystr \<Rightarrow> pystr" where
  "ascii_title s = ascii_title_from False s"

text \<open>
  Five feeds: two that parse to five entries each, one whose parse raises, one
  without entries, and one whose only entry has a title of tags alone. Every other
  URL has no entries. The \<open>netloc\<close> is given for two URLs; for any other URL the
  example has \<open>urlparse\<close> raise, as it does on \<open>http://[bad\<close>.
\<close>

definition demo_entry :: "pystr \<Rightarrow> entry" where
  "demo_entry t =
     \<lparr>entry_title = Some t, entry_summary = Some (py ''<p>New  today</p>''),
      entry_description = None\<rparr>"

definition demo_parse :: "pystr \<Rightarrow> pyexc + entry list" where
  "demo_parse url =
     (if url = py ''https://feeds.bbci.co.uk/news/rss.xml''
      then Inr (map demo_entry [py ''B1'', py ''B2'', py ''B3'', py ''B4'', py ''B5''])
      else if url = py ''https://rss.nytimes.com/World.xml''
      then Inr (map demo_entry [py ''N1'', py ''N2'', py ''N3'', py ''N4'', py ''N5''])
      else if url = py ''https://down.example.org/feed''
      then Inl (OtherException (py ''timed out''))
      else if url = py ''https://blank.example.org/rss''
      then Inr [demo_entry (py ''<b></b>'')]
      else Inr [])"

definition demo_netloc :: "pystr \<Rightarrow> pyexc + pystr" where
  "demo_netloc url =
     (if url = py ''https://blank.example.org/rss'' then Inr (py ''blank.example.org'')
      else if url = py ''https://awww.example.com/rss'' then Inr (py ''awww.example.com'')
      else Inl (OtherException (py ''Invalid IPv6 URL'')))"

definition demo_lib :: pylib where
  "demo_lib =
     \<lparr>str_lower = ascii_lower, str_title = ascii_title,
      urlparse_netloc = demo_netloc, feedparser_parse = demo_parse\<rparr>"

definition demo_article :: article where
  "demo_article = \<lparr>source = py ''CNN'', title = py ''T'', summary = py ''S...''\<rparr>"

text \<open>
  An audio environment with frames of type \<open>int\<close>, at 44100 frames a second: a speech
  of 15875956 frames (359999 milliseconds) and a background of 2645982 frames (59.9996
  seconds, 60000 milliseconds by \<open>len\<close>); \<open>_sync\<close> has nothing to change, and nothing
  raises. \<open>demo_mixed\<close> is the track the mixer saves there. A synthesis service that
  answers without \<open>audioFile\<close>. A handler environment with a key, and a request for
  given feeds.
\<close>

definition demo_speech :: "int segment" where
  "demo_speech = \<lparr>frame_rate = 44100, frames = replicate 15875956 1\<rparr>"

definition demo_background :: "int segment" where
  "demo_background = \<lparr>frame_rate = 44100, frames = replicate 2645982 8\<rparr>"

definition demo_mixed :: "int segment" where
  "demo_mixed = \<lparr>frame_rate = 44100, frames = replicate 15875892 3 @ replicate 19 1\<rparr>"

definition demo_audio :: "int audio_env" where
  "demo_audio =
     \<lparr>ffmpeg_available = True,
      from_file_mp3 = (\<lambda>content. Inr demo_speech),
      background_exists = True,
      from_file_background = Inr demo_background,
      apply_gain = (\<lambda>g s. s div 4),
      mix_sample = (\<lambda>b x. b + x),
      silent_frame = (\<lambda>s. 0),
      sync = Pair,
      export_raises = (\<lambda>seg. None),
      write_raises = (\<lambda>content. None)\<rparr>"

definition demo_murf :: "int murf_env" where
  "demo_murf =
     \<lparr>murf_post = (\<lambda>text voice_id audio_format.
        Inr \<lparr>audioFile = None, audioLengthInSeconds = Some 12,
             consumedCharacterCount = Some 300, remainingCharacterCount = Some 700\<rparr>),
      requests_get = (\<lambda>url. Inr [73, 68, 51]),
      audio = demo_audio\<rparr>"

definition demo_env :: "int handler_env" where
  "demo_env =
     \<lparr>MURF_API_KEY = Some (py ''ap2_1234''), lib = demo_lib,
      current_date = py ''Monday, June 02'', murf = demo_murf\<rparr>"

definition demo_request :: "pystr list \<Rightarrow> request" where
  "demo_request urls =
     \<lparr>feeds = urls, voice_id = py ''en-US-natalie'', audio_format = py ''MP3'',
      max_articles_per_feed = Some 3\<rparr>"

section \<open>Evaluation of the string functions\<close>

lemma str_split_Nil: "str_split [] = []"
  by (simp add: str_split.simps)

lemma str_split_Cons:
  "str_split (c # cs) =
     (if isspace c then str_split cs
      else (c # takeWhile (\<lambda>c. \<not> isspace c) cs) # str_split (dropWhile (\<lambda>c. \<not> isspace c) cs))"
proof (cases "isspace c")
  case True
  have "str_split (c # cs) = (let s' = dropWhile isspace cs in if s' = [] then []
         else takeWhile (\<lambda>c. \<not> isspace c) s' # str_split (dropWhile (\<lambda>c. \<not> isspace c) s'))"
    using True by (subst str_split.simps) simp
  also have "\<dots> = str_split cs" by (subst (2) str_split.simps) simp
  finally show ?thesis using True by simp
next
  case False
  then show ?thesis by (subst str_split.simps) simp
qed

lemma str_replace_Nil: "str_replace (a # old) new [] = []"
  by (simp add: str_replace.simps)

lemma str_replace_Cons:
  "str_replace (a # old) new (c # cs) =
     (if prefix (a # old) (c # cs) then new @ str_replace (a # old) new (drop (length old) cs)
      else c # str_replace (a # old) new cs)"
  by (subst str_replace.simps) simp

section \<open>Splitting, joining and replacing\<close>

lemma str_split_words: "w \<in> set (str_split s) \<Longrightarrow> word w"
proof (induction s arbitrary: w rule: length_induct)
  case (1 s)
  show ?case
  proof (cases s)
    case Nil
    then show ?thesis using 1 by (simp add: str_split_Nil)
  next
    case (Cons c cs)
    show ?thesis
    proof (cases "isspace c")
      case True
      then have "w \<in> set (str_split cs)" using 1(2) Cons by (simp add: str_split_Cons)
      moreover have "length cs < length s" using Cons by simp
      ultimately show ?thesis using 1(1) by blast
    next
      case False
      let ?r = "dropWhile (\<lambda>c. \<not> isspace c) cs"
      have "w = c # takeWhile (\<lambda>c. \<not> isspace c) cs \<or> w \<in> set (str_split ?r)"
        using 1(2) Cons False by (simp add: str_split_Cons)
      then show ?thesis
      proof
        assume "w = c # takeWhile (\<lambda>c. \<not> isspace c) cs"
        then show ?thesis using False by (auto simp: word_def dest: set_takeWhileD)
      next
        assume w: "w \<in> set (str_split ?r)"
        have "length ?r < length s" using Cons length_dropWhile_le [of "\<lambda>c. \<not> isspace c" cs] by simp
        then show ?thesis using 1(1) w by blast
      qed
    qed
  qed
qed

lemma str_split_word_append:
  assumes "word w"
  shows "str_split (w @ 32 # r) = w # str_split r"
proof -
  from assms obtain c w' where w: "w = c # w'" by (cases w) (auto simp: word_def)
  have ns: "\<not> isspace c" "\<forall>x \<in> set w'. \<not> isspace x" using assms w by (auto simp: word_def)
  have sp: "isspace 32" by (simp add: isspace_def)
  have t: "takeWhile (\<lambda>c. \<not> isspace c) (w' @ 32 # r) = w'"
    using ns sp by (simp add: takeWhile_append)
  have d: "dropWhile (\<lambda>c. \<not> isspace c) (w' @ 32 # r) = 32 # r"
    using ns sp by (simp add: dropWhile_append)
  show ?thesis using ns sp by (simp add: w str_split_Cons t d)
qed

lemma str_split_word:
  assumes "word w"
  shows "str_split w = [w]"
proof -
  from assms obtain c w' where w: "w = c # w'" by (cases w) (auto simp: word_def)
  have ns: "\<not> isspace c" "\<forall>x \<in> set w'. \<not> isspace x" using assms w by (auto simp: word_def)
  have d: "dropWhile (\<lambda>c. \<not> isspace c) w' = []" using ns by simp
  have t: "takeWhile (\<lambda>c. \<not> isspace c) w' = w'" using ns by simp
  show ?thesis using ns(1) by (simp add: w str_split_Cons str_split_Nil d t)
qed

lemma str_split_join:
  "\<forall>w \<in> set ws. word w \<Longrightarrow> str_split (str_join [32] ws) = ws"
proof (induction "[32::nat]" ws rule: str_join.induct)
  case 1
  show ?case by (simp add: str_split_Nil)
next
  case (2 w)
  then show ?case by (simp add: str_split_word)
next
  case (3 w v ws)
  then show ?case by (simp add: str_split_word_append)
qed


lemma str_replace_blank:
  assumes "32 \<notin> set (a # old)"
  shows "str_replace (a # old) new (w @ 32 # r) =
         str_replace (a # old) new w @ 32 # str_replace (a # old) new r"
proof (induction w rule: length_induct)
  case (1 w)
  show ?case
  proof (cases w)
    case Nil
    have "a \<noteq> 32" using assms by auto
    then show ?thesis using Nil by (simp add: str_replace_Cons str_replace_Nil)
  next
    case (Cons c cs)
    show ?thesis
    proof (cases "prefix (a # old) (c # cs @ 32 # r)")
      case True
      have le: "length old \<le> length cs"
      proof (rule ccontr)
        assume "\<not> length old \<le> length cs"
        then have lt: "length (c # cs) < length (a # old)" by simp
        from True obtain z where z: "(c # cs) @ 32 # r = (a # old) @ z"
          by (auto simp: prefix_def)
        have "(a # old) ! length (c # cs) = ((a # old) @ z) ! length (c # cs)"
          using lt by (simp only: nth_append if_True)
        also have "\<dots> = ((c # cs) @ 32 # r) ! length (c # cs)" using z by simp
        also have "\<dots> = 32" by (simp only: nth_append_length)
        finally have "(a # old) ! length (c # cs) = 32" .
        then show False using assms lt by (metis nth_mem)
      qed
      from True obtain z where z: "(c # cs) @ 32 # r = (a # old) @ z"
        by (auto simp: prefix_def)
      have "take (length (a # old)) ((c # cs) @ 32 # r) = take (length (a # old)) (c # cs)"
        using le by simp
      moreover have "take (length (a # old)) ((c # cs) @ 32 # r) = a # old"
        using z by (metis append_eq_conv_conj)
      ultimately have p: "prefix (a # old) (c # cs)"
        by (metis take_is_prefix)
      have d: "drop (length old) (cs @ 32 # r) = drop (length old) cs @ 32 # r"
        using le by simp
      have "length (drop (length old) cs) < length w" using Cons by simp
      then have ih: "str_replace (a # old) new (drop (length old) cs @ 32 # r) =
                 str_replace (a # old) new (drop (length old) cs) @ 32 # str_replace (a # old) new r"
        using 1 by blast
      have "str_replace (a # old) new (w @ 32 # r) =
            new @ str_replace (a # old) new (drop (length old) (cs @ 32 # r))"
        using True Cons by (simp add: str_replace_Cons del: Cons_prefix_Cons)
      moreover have "str_replace (a # old) new w =
            new @ str_replace (a # old) new (drop (length old) cs)"
        using p Cons by (simp add: str_replace_Cons del: Cons_prefix_Cons)
      ultimately show ?thesis using ih d by simp
    next
      case False
      have np: "\<not> prefix (a # old) (c # cs)"
      proof
        assume "prefix (a # old) (c # cs)"
        then have "prefix (a # old) ((c # cs) @ 32 # r)" by (rule prefix_prefix)
        then show False using False by simp
      qed
      have "length cs < length w" using Cons by simp
      then have ih: "str_replace (a # old) new (cs @ 32 # r) =
                 str_replace (a # old) new cs @ 32 # str_replace (a # old) new r"
        using 1 by blast
      have "str_replace (a # old) new (w @ 32 # r) =
            c # str_replace (a # old) new (cs @ 32 # r)"
        using False Cons by (simp add: str_replace_Cons del: Cons_prefix_Cons)
      moreover have "str_replace (a # old) new w = c # str_replace (a # old) new cs"
        using np Cons by (simp add: str_replace_Cons del: Cons_prefix_Cons)
      ultimately show ?thesis using ih by simp
    qed
  qed
qed

lemma str_replace_join:
  assumes "32 \<notin> set (a # old)"
  shows "str_replace (a # old) new (str_join [32] ws) =
         str_join [32] (map (str_replace (a # old) new) ws)"
proof (induction "[32::nat]" ws rule: str_join.induct)
  case 1
  show ?case by (simp add: str_replace_Nil)
next
  case (2 w)
  show ?case by simp
next
  case (3 w v ws)
  then show ?case using str_replace_blank [OF assms] by simp
qed

lemma set_str_replace: "set (str_replace (a # old) new s) \<subseteq> set s \<union> set new"
proof (induction s rule: length_induct)
  case (1 s)
  show ?case
  proof (cases s)
    case Nil
    then show ?thesis by (simp add: str_replace_Nil)
  next
    case (Cons c cs)
    have "length (drop (length old) cs) < length s" "length cs < length s" using Cons by simp_all
    then have "set (str_replace (a # old) new (drop (length old) cs)) \<subseteq> set (drop (length old) cs) \<union> set new"
      "set (str_replace (a # old) new cs) \<subseteq> set cs \<union> set new"
      using 1 by blast+
    moreover have "set (drop (length old) cs) \<subseteq> set cs" by (rule set_drop_subset)
    ultimately show ?thesis using Cons by (auto simp: str_replace_Cons)
  qed
qed

lemma str_replace_nonempty:
  "s \<noteq> [] \<Longrightarrow> new \<noteq> [] \<Longrightarrow> str_replace (a # old) new s \<noteq> []"
  by (cases s) (simp_all add: str_replace_Cons)

lemma word_str_replace:
  "word w \<Longrightarrow> word new \<Longrightarrow> word (str_replace (a # old) new w)"
  using set_str_replace [of a old new w] str_replace_nonempty [of w new a old]
  by (auto simp: word_def)


section \<open>The loops of the composer and of the fetcher\<close>

lemma briefing_loop_Suc:
  "briefing_loop (Suc i) articles briefing =
     briefing @ concat (map (spoken_block (py ''Next, from'')) articles)"
  by (induction articles arbitrary: i briefing) (simp_all add: article_block_def spoken_block_def)

lemma briefing_loop_0:
  "briefing_loop 0 articles briefing = briefing @ concat (article_blocks articles)"
  by (cases articles) (simp_all add: briefing_loop_Suc, simp add: article_block_def spoken_block_def)

lemma format_nonempty:
  "articles \<noteq> [] \<Longrightarrow> format_news_briefing d articles = dateline d @ concat (article_blocks (take 20 articles)) @ sign_off"
  by (simp add: format_news_briefing_def slice_to_def briefing_loop_0 dateline_def sign_off_def)

lemma length_article_blocks: "length (article_blocks articles) = length articles"
  by (cases articles) simp_all

lemma entries_loop_eq:
  "entries_loop source_name es all_articles =
     all_articles @ map (entry_article source_name) (filter titled es)"
  by (induction es arbitrary: all_articles) (simp_all add: entry_article_def raw_summary_def titled_def Let_def)

lemma feeds_loop_append:
  "feeds_loop L m (us @ vs) st = feeds_loop L m vs (feeds_loop L m us st)"
proof (induction us arbitrary: st)
  case Nil
  show ?case by (cases st) simp
next
  case (Cons u us)
  show ?case by (cases st) (simp add: Cons Let_def split: sum.splits)
qed

lemma feeds_loop_skip:
  "feedparser_parse L u = Inl e \<or> feedparser_parse L u = Inr [] \<Longrightarrow>
   feeds_loop L m (u # us) st = feeds_loop L m us st"
  by (cases st) auto

lemma set_slice_to: "set (slice_to n xs) \<subseteq> set xs"
  by (auto simp: slice_to_def split: option.splits dest: in_set_takeD)

lemma feeds_loop_sources_mono:
  "set (snd st) \<subseteq> set (snd (feeds_loop L m us st))"
proof (induction us arbitrary: st)
  case Nil
  show ?case by (cases st) simp
next
  case (Cons u us)
  obtain arts srcs where st: "st = (arts, srcs)" by (cases st)
  show ?case
  proof (cases "feedparser_parse L u")
    case (Inl e)
    then show ?thesis using Cons [of st] st by simp
  next
    case (Inr es)
    show ?thesis
    proof (cases "es = []")
      case True
      then show ?thesis using Cons [of st] st Inr by simp
    next
      case False
      let ?n = "get_source_name L u"
      let ?s = "if ?n \<notin> set srcs then srcs @ [?n] else srcs"
      have "feeds_loop L m (u # us) st = feeds_loop L m us (entries_loop ?n (slice_to m es) arts, ?s)"
        using st Inr False by (simp add: Let_def)
      moreover have "set srcs \<subseteq> set ?s" by auto
      ultimately show ?thesis using Cons [of "(entries_loop ?n (slice_to m es) arts, ?s)"] st
        by auto
    qed
  qed
qed

lemma feeds_loop_source_added:
  assumes "feedparser_parse L u = Inr es" "es \<noteq> []"
  shows "get_source_name L u \<in> set (snd (feeds_loop L m (u # us) st))"
proof -
  obtain arts srcs where st: "st = (arts, srcs)" by (cases st)
  let ?n = "get_source_name L u"
  let ?s = "if ?n \<notin> set srcs then srcs @ [?n] else srcs"
  have "feeds_loop L m (u # us) st = feeds_loop L m us (entries_loop ?n (slice_to m es) arts, ?s)"
    using st assms by (simp add: Let_def)
  moreover have "?n \<in> set ?s" by auto
  ultimately show ?thesis
    using feeds_loop_sources_mono [of "(entries_loop ?n (slice_to m es) arts, ?s)" L m us]
    by auto
qed

lemma feeds_loop_invariant:
  assumes "\<forall>a \<in> set (fst st). Q a"
    and "\<And>u es e. u \<in> set urls \<Longrightarrow> feedparser_parse L u = Inr es \<Longrightarrow> e \<in> set es \<Longrightarrow>
           titled e \<Longrightarrow> Q (entry_article (get_source_name L u) e)"
  shows "\<forall>a \<in> set (fst (feeds_loop L m urls st)). Q a"
  using assms
proof (induction urls arbitrary: st)
  case Nil
  then show ?case by (cases st) simp
next
  case (Cons u us)
  obtain arts srcs where st: "st = (arts, srcs)" by (cases st)
  have step: "\<And>v es e. v \<in> set us \<Longrightarrow> feedparser_parse L v = Inr es \<Longrightarrow> e \<in> set es \<Longrightarrow>
           titled e \<Longrightarrow> Q (entry_article (get_source_name L v) e)"
  proof -
    fix v es e
    assume a: "v \<in> set us" "feedparser_parse L v = Inr es" "e \<in> set es" "titled e"
    from a(1) have "v \<in> set (u # us)" by simp
    then show "Q (entry_article (get_source_name L v) e)"
      using a(2,3,4) by (rule Cons.prems(2))
  qed
  show ?case
  proof (cases "feedparser_parse L u")
    case (Inl x)
    then have "feeds_loop L m (u # us) st = feeds_loop L m us st" using st by simp
    then show ?thesis using Cons.IH [OF Cons.prems(1) step] by simp
  next
    case (Inr es)
    show ?thesis
    proof (cases "es = []")
      case True
      then have "feeds_loop L m (u # us) st = feeds_loop L m us st" using st Inr by simp
      then show ?thesis using Cons.IH [OF Cons.prems(1) step] by simp
    next
      case False
      define n where "n = get_source_name L u"
      define s' where "s' = (if n \<notin> set srcs then srcs @ [n] else srcs)"
      define st' where "st' = (entries_loop n (slice_to m es) arts, s')"
      have eq: "feeds_loop L m (u # us) st = feeds_loop L m us st'"
        using st Inr False by (simp add: Let_def n_def s'_def st'_def)
      have "\<forall>a \<in> set (fst st'). Q a"
      proof
        fix a assume "a \<in> set (fst st')"
        then have "a \<in> set arts \<or> a \<in> entry_article n ` set (filter titled (slice_to m es))"
          by (simp add: st'_def entries_loop_eq)
        then show "Q a"
        proof
          assume "a \<in> set arts"
          then show ?thesis using Cons.prems(1) st by simp
        next
          assume "a \<in> entry_article n ` set (filter titled (slice_to m es))"
          then obtain e where e0: "e \<in> set (filter titled (slice_to m es))"
            and ea: "a = entry_article n e" by (rule imageE)
          have e: "e \<in> set (slice_to m es)" "titled e" "a = entry_article n e"
            using e0 ea by simp_all
          have es: "e \<in> set es" using set_slice_to [of m es] e(1) by (rule subsetD)
          have uu: "u \<in> set (u # us)" by simp
          have "Q (entry_article (get_source_name L u) e)"
            using uu Inr es e(2) by (rule Cons.prems(2))
          then show ?thesis unfolding e(3) n_def .
        qed
      qed
      then have "\<forall>a \<in> set (fst (feeds_loop L m us st')). Q a"
        using step by (rule Cons.IH)
      then show ?thesis using eq by simp
    qed
  qed
qed

lemma feeds_loop_articles:
  assumes "a \<in> set (fst (fetch_rss_articles L urls m))"
  shows "\<exists>u es e. u \<in> set urls \<and> feedparser_parse L u = Inr es \<and> e \<in> set es \<and> titled e \<and>
      a = entry_article (get_source_name L u) e"
proof -
  have "\<forall>a \<in> set (fst (feeds_loop L m urls ([], []))).
     \<exists>u es e. u \<in> set urls \<and> feedparser_parse L u = Inr es \<and> e \<in> set es \<and> titled e \<and>
      a = entry_article (get_source_name L u) e"
  proof (rule feeds_loop_invariant)
    show "\<forall>a \<in> set (fst (([], []) :: article list \<times> pystr list)).
     \<exists>u es e. u \<in> set urls \<and> feedparser_parse L u = Inr es \<and> e \<in> set es \<and> titled e \<and>
      a = entry_article (get_source_name L u) e" by simp
  next
    fix u es e
    assume "u \<in> set urls" "feedparser_parse L u = Inr es" "e \<in> set es" "titled e"
    then show "\<exists>v es' e'. v \<in> set urls \<and> feedparser_parse L v = Inr es' \<and> e' \<in> set es' \<and>
      titled e' \<and> entry_article (get_source_name L u) e = entry_article (get_source_name L v) e'"
      by blast
  qed
  then show ?thesis using assms by (simp add: fetch_rss_articles_def)
qed

section \<open>The example environment, evaluated\<close>

lemmas eval_simps = str_split_Nil str_split_Cons str_replace_Nil str_replace_Cons
  clean_text_def tag_rest_def isspace_def

lemma demo_bbc: "get_source_name demo_lib (py ''https://feeds.bbci.co.uk/news/rss.xml'') = py ''BBC News''"
  by (simp add: get_source_name_def demo_lib_def ascii_lower_def source_mapping_def sublist_Cons_right)

lemma demo_parse_down:
  "feedparser_parse demo_lib (py ''https://down.example.org/feed'') = Inl (OtherException (py ''timed out''))"
  by (simp add: demo_lib_def demo_parse_def)

lemma demo_parse_empty:
  "feedparser_parse demo_lib (py ''https://empty.example.org/feed'') = Inr []"
  by (simp add: demo_lib_def demo_parse_def)

lemma demo_nyt:
  "get_source_name demo_lib (py ''https://rss.nytimes.com/World.xml'') = py ''New York Times''"
  by (simp add: get_source_name_def demo_lib_def ascii_lower_def source_mapping_def
      sublist_Cons_right)

lemma demo_blank:
  "get_source_name demo_lib (py ''https://blank.example.org/rss'') = py ''Blank''"
  by (simp add: get_source_name_def demo_lib_def ascii_lower_def source_mapping_def
      sublist_Cons_right demo_netloc_def str_replace_Nil str_replace_Cons ascii_title_def)

lemma demo_summary: "clean_text (py ''<p>New  today</p>'') = py ''New today''"
  by (simp add: eval_simps)

lemma demo_titles:
  "clean_text (py ''B1'') = py ''B1''" "clean_text (py ''B2'') = py ''B2''"
  "clean_text (py ''B3'') = py ''B3''" "clean_text (py ''B4'') = py ''B4''"
  "clean_text (py ''B5'') = py ''B5''" "clean_text (py ''N1'') = py ''N1''"
  "clean_text (py ''N2'') = py ''N2''" "clean_text (py ''N3'') = py ''N3''"
  "clean_text (py ''N4'') = py ''N4''" "clean_text (py ''N5'') = py ''N5''"
  "clean_text (py ''<b></b>'') = []"
  by (simp_all add: eval_simps)

lemma demo_fetch_bbc:
  "fetch_rss_articles demo_lib [py ''https://feeds.bbci.co.uk/news/rss.xml''] (Some 1) =
     ([\<lparr>source = py ''BBC News'', title = py ''B1'', summary = py ''New today...''\<rparr>],
      [py ''BBC News''])"
  using demo_bbc demo_titles demo_summary
  by (simp add: fetch_rss_articles_def demo_lib_def demo_parse_def demo_entry_def
      slice_to_def dict_get_def Let_def)

section \<open>Properties of the composer\<close>

text \<open>
  C2. Whatever the list of articles, the script has at most 20 article blocks: those
  of the first 20 articles, and an article after the 20th changes nothing. For the
  empty list the script is the sentence \<open>No news articles available at this time.\<close>
  alone, without dateline and without closing sentence.
\<close>

theorem format_news_briefing_cap:
  "format_news_briefing d [] = py ''No news articles available at this time.'' \<and>
   (articles \<noteq> [] \<longrightarrow>
      format_news_briefing d articles =
        dateline d @ concat (article_blocks (take 20 articles)) @ sign_off) \<and>
   length (article_blocks (take 20 articles)) = min 20 (length articles) \<and>
   length (article_blocks (take 20 articles)) \<le> 20 \<and>
   format_news_briefing d articles = format_news_briefing d (take 20 articles)"
proof -
  have e: "format_news_briefing d [] = py ''No news articles available at this time.''"
    by (simp add: format_news_briefing_def)
  have n: "length (article_blocks (take 20 articles)) = min 20 (length articles)"
    by (simp add: length_article_blocks min.commute)
  have t: "format_news_briefing d articles = format_news_briefing d (take 20 articles)"
  proof (cases "articles = []")
    case True
    then show ?thesis by simp
  next
    case False
    then have "take 20 articles \<noteq> []" by (cases articles) simp_all
    then show ?thesis using False by (simp add: format_nonempty)
  qed
  show ?thesis using e n t by (simp add: format_nonempty)
qed

theorem format_news_briefing_cap_witness:
  "replicate 21 demo_article \<noteq> [] \<and>
   format_news_briefing (py ''Monday, June 02'') (replicate 21 demo_article) =
     dateline (py ''Monday, June 02'') @ concat (article_blocks (replicate 20 demo_article))
     @ sign_off \<and>
   format_news_briefing (py ''Monday, June 02'') (replicate 21 demo_article) =
     format_news_briefing (py ''Monday, June 02'') (replicate 20 demo_article)"
proof -
  have t: "take 20 (replicate 21 demo_article) = replicate 20 demo_article" by simp
  have ne: "replicate 21 demo_article \<noteq> []" by simp
  show ?thesis
    using format_news_briefing_cap [of "py ''Monday, June 02''" "replicate 21 demo_article"] ne
    unfolding t by blast
qed

section \<open>Properties of the fetcher\<close>

text \<open>
  C7. A feed whose parse raises or gives no entry contributes no article and no
  source name, and the result for the whole list is the result for the list without
  that feed.
\<close>

theorem fetch_skips_failed_feed:
  assumes "(\<exists>e. feedparser_parse L u = Inl e) \<or> feedparser_parse L u = Inr []"
  shows "fetch_rss_articles L [u] m = ([], []) \<and>
         fetch_rss_articles L (us @ u # vs) m = fetch_rss_articles L (us @ vs) m"
proof -
  have skip: "\<And>ws st. feeds_loop L m (u # ws) st = feeds_loop L m ws st"
    using assms feeds_loop_skip by blast
  have "fetch_rss_articles L [u] m = feeds_loop L m [] ([], [])"
    unfolding fetch_rss_articles_def by (rule skip)
  then have "fetch_rss_articles L [u] m = ([], [])" by simp
  moreover have "fetch_rss_articles L (us @ u # vs) m = fetch_rss_articles L (us @ vs) m"
    by (simp only: fetch_rss_articles_def feeds_loop_append skip)
  ultimately show ?thesis by simp
qed

theorem fetch_skips_failed_feed_witness:
  "((\<exists>e. feedparser_parse demo_lib (py ''https://down.example.org/feed'') = Inl e) \<or>
    feedparser_parse demo_lib (py ''https://down.example.org/feed'') = Inr []) \<and>
   fetch_rss_articles demo_lib [py ''https://down.example.org/feed''] (Some 3) = ([], []) \<and>
   fetch_rss_articles demo_lib
     [py ''https://feeds.bbci.co.uk/news/rss.xml'', py ''https://down.example.org/feed'',
      py ''https://rss.nytimes.com/World.xml''] (Some 3) =
   fetch_rss_articles demo_lib
     [py ''https://feeds.bbci.co.uk/news/rss.xml'', py ''https://rss.nytimes.com/World.xml'']
     (Some 3)"
proof -
  have h: "(\<exists>e. feedparser_parse demo_lib (py ''https://down.example.org/feed'') = Inl e) \<or>
    feedparser_parse demo_lib (py ''https://down.example.org/feed'') = Inr []"
    using demo_parse_down by blast
  show ?thesis
    using h fetch_skips_failed_feed [OF h, where us = "[py ''https://feeds.bbci.co.uk/news/rss.xml'']"
      and vs = "[py ''https://rss.nytimes.com/World.xml'']" and m = "Some 3"]
    by simp
qed

text \<open>
  C5. The summary of every article the fetcher returns is the cleaned summary (or
  description) of an entry, cut to at most 197 code points, followed by \<open>...\<close>: it
  ends in \<open>...\<close> and has at most 200 code points, and a cleaned summary of 197 code
  points or fewer gets the suffix all the same.
\<close>

theorem article_summary_shape:
  assumes "a \<in> set (fst (fetch_rss_articles L urls m))"
  shows "suffix (py ''...'') (summary a) \<and> length (summary a) \<le> 200 \<and>
         (\<exists>u es e. u \<in> set urls \<and> feedparser_parse L u = Inr es \<and> e \<in> set es \<and>
            summary a = take 197 (clean_text (raw_summary e)) @ py ''...'' \<and>
            (length (clean_text (raw_summary e)) \<le> 197 \<longrightarrow>
               summary a = clean_text (raw_summary e) @ py ''...''))"
proof -
  from assms obtain u es e where
    u: "u \<in> set urls" "feedparser_parse L u = Inr es" "e \<in> set es"
    and a: "a = entry_article (get_source_name L u) e"
    using feeds_loop_articles by blast
  have s: "summary a = take 197 (clean_text (raw_summary e)) @ py ''...''"
    unfolding a by (simp add: entry_article_def)
  have x: "suffix (py ''...'') (summary a)" unfolding s by (rule suffixI) simp
  have y: "length (summary a) \<le> 200" unfolding s by simp
  have z: "length (clean_text (raw_summary e)) \<le> 197 \<longrightarrow>
              summary a = clean_text (raw_summary e) @ py ''...''"
    unfolding s by simp
  have "\<exists>u es e. u \<in> set urls \<and> feedparser_parse L u = Inr es \<and> e \<in> set es \<and>
            summary a = take 197 (clean_text (raw_summary e)) @ py ''...'' \<and>
            (length (clean_text (raw_summary e)) \<le> 197 \<longrightarrow>
               summary a = clean_text (raw_summary e) @ py ''...'')"
    using u s z by (intro exI conjI)
  then show ?thesis using x y by (intro conjI)
qed

theorem article_summary_shape_witness:
  "\<lparr>source = py ''BBC News'', title = py ''B1'', summary = py ''New today...''\<rparr>
     \<in> set (fst (fetch_rss_articles demo_lib [py ''https://feeds.bbci.co.uk/news/rss.xml'']
                   (Some 1))) \<and>
   suffix (py ''...'') (py ''New today...'') \<and> length (py ''New today...'') \<le> 200"
proof -
  have m: "\<lparr>source = py ''BBC News'', title = py ''B1'', summary = py ''New today...''\<rparr>
     \<in> set (fst (fetch_rss_articles demo_lib [py ''https://feeds.bbci.co.uk/news/rss.xml'']
                   (Some 1)))"
    by (simp only: demo_fetch_bbc fst_conv list.set insertI1)
  have "suffix (py ''...'')
          (summary \<lparr>source = py ''BBC News'', title = py ''B1'', summary = py ''New today...''\<rparr>) \<and>
        length (summary \<lparr>source = py ''BBC News'', title = py ''B1'',
                          summary = py ''New today...''\<rparr>) \<le> 200"
    using article_summary_shape [OF m] by (elim conjE) (intro conjI)
  then show ?thesis using m by simp
qed

text \<open>
  C10. A feed with at least one entry has its source name in the returned sources,
  also when no entry has a cleaned title: then the feed alone gives the source name
  and no article.
\<close>

theorem source_named_without_articles:
  assumes "feedparser_parse L u = Inr es" "es \<noteq> []" "u \<in> set urls"
  shows "get_source_name L u \<in> set (snd (fetch_rss_articles L urls m)) \<and>
         ((\<forall>e \<in> set es. \<not> titled e) \<longrightarrow>
            fetch_rss_articles L [u] m = ([], [get_source_name L u]))"
proof -
  from assms(3) obtain us vs where urls: "urls = us @ u # vs" by (auto dest: split_list)
  have "get_source_name L u \<in> set (snd (feeds_loop L m (u # vs) (feeds_loop L m us ([], []))))"
    using assms(1,2) by (rule feeds_loop_source_added)
  then have a: "get_source_name L u \<in> set (snd (fetch_rss_articles L urls m))"
    by (simp add: fetch_rss_articles_def urls feeds_loop_append)
  have b: "fetch_rss_articles L [u] m = ([], [get_source_name L u])"
    if "\<forall>e \<in> set es. \<not> titled e"
  proof -
    have "filter titled (slice_to m es) = []"
      using that set_slice_to [of m es] by (auto simp: filter_empty_conv)
    then show ?thesis using assms(1,2)
      by (simp add: fetch_rss_articles_def entries_loop_eq Let_def)
  qed
  show ?thesis using a b by blast
qed

theorem source_named_without_articles_witness:
  "feedparser_parse demo_lib (py ''https://blank.example.org/rss'') =
     Inr [demo_entry (py ''<b></b>'')] \<and>
   [demo_entry (py ''<b></b>'')] \<noteq> [] \<and>
   py ''https://blank.example.org/rss'' \<in> set [py ''https://blank.example.org/rss''] \<and>
   \<not> titled (demo_entry (py ''<b></b>'')) \<and>
   fetch_rss_articles demo_lib [py ''https://blank.example.org/rss''] (Some 3) =
     ([], [py ''Blank''])"
proof -
  have p: "feedparser_parse demo_lib (py ''https://blank.example.org/rss'') =
     Inr [demo_entry (py ''<b></b>'')]"
    by (simp add: demo_lib_def demo_parse_def)
  have ne: "[demo_entry (py ''<b></b>'')] \<noteq> []" by simp
  have i: "py ''https://blank.example.org/rss'' \<in> set [py ''https://blank.example.org/rss'']"
    by simp
  have t: "\<forall>e \<in> set [demo_entry (py ''<b></b>'')]. \<not> titled e"
    using demo_titles(11) by (simp add: titled_def demo_entry_def dict_get_def)
  have "fetch_rss_articles demo_lib [py ''https://blank.example.org/rss''] (Some 3) =
     ([], [get_source_name demo_lib (py ''https://blank.example.org/rss'')])"
    using source_named_without_articles [OF p ne i, of "Some 3"] t by blast
  moreover have "\<not> titled (demo_entry (py ''<b></b>''))" using t by simp
  ultimately show ?thesis using p ne i demo_blank by simp
qed

section \<open>The end-to-end scenario\<close>

lemma take3_of_5:
  assumes "length xs = 5"
  shows "take 3 xs = [xs ! 0, xs ! 1, xs ! 2]"
proof -
  from assms obtain a b c d e where "xs = [a, b, c, d, e]"
    by (auto simp: length_Suc_conv eval_nat_numeral)
  then show ?thesis by simp
qed

text \<open>
  C1. Two feeds that parse to five entries each, every cleaned title non-empty, with
  different source names, and at most 3 articles per feed: the fetcher returns the
  articles of the first 3 entries of the first feed, then those of the first 3 of the
  second, 6 in all, and the 2 source names; the script of these 6 articles has 6
  blocks between dateline and closing sentence, the first with \<open>From\<close>, the others
  with \<open>Next, from\<close>.
\<close>

theorem two_feeds_scenario:
  assumes "feedparser_parse L u1 = Inr es1" and "feedparser_parse L u2 = Inr es2"
    and "length es1 = 5" and "length es2 = 5"
    and "\<forall>e \<in> set es1 \<union> set es2. titled e"
    and "get_source_name L u1 \<noteq> get_source_name L u2"
  shows "fetch_rss_articles L [u1, u2] (Some 3) =
           (map (entry_article (get_source_name L u1)) (take 3 es1) @
            map (entry_article (get_source_name L u2)) (take 3 es2),
            [get_source_name L u1, get_source_name L u2]) \<and>
         length (fst (fetch_rss_articles L [u1, u2] (Some 3))) = 6 \<and>
         length (snd (fetch_rss_articles L [u1, u2] (Some 3))) = 2 \<and>
         (\<exists>a1 a2 a3 a4 a5 a6.
            fst (fetch_rss_articles L [u1, u2] (Some 3)) = [a1, a2, a3, a4, a5, a6] \<and>
            format_news_briefing d (fst (fetch_rss_articles L [u1, u2] (Some 3))) =
              dateline d
              @ spoken_block (py ''From'') a1
              @ spoken_block (py ''Next, from'') a2
              @ spoken_block (py ''Next, from'') a3
              @ spoken_block (py ''Next, from'') a4
              @ spoken_block (py ''Next, from'') a5
              @ spoken_block (py ''Next, from'') a6
              @ sign_off)"
proof -
  define n1 where "n1 = get_source_name L u1"
  define n2 where "n2 = get_source_name L u2"
  have ne: "es1 \<noteq> []" "es2 \<noteq> []" using assms(3,4) by auto
  have f1: "filter titled (take 3 es1) = take 3 es1"
    using assms(5) by (auto simp: filter_id_conv dest: in_set_takeD)
  have f2: "filter titled (take 3 es2) = take 3 es2"
    using assms(5) by (auto simp: filter_id_conv dest: in_set_takeD)
  have s: "slice_to (Some 3) es1 = take 3 es1" "slice_to (Some 3) es2 = take 3 es2"
    by (simp_all add: slice_to_def)
  have fetch: "fetch_rss_articles L [u1, u2] (Some 3) =
           (map (entry_article n1) (take 3 es1) @ map (entry_article n2) (take 3 es2), [n1, n2])"
    using assms(1,2,6) ne
    by (simp add: fetch_rss_articles_def Let_def entries_loop_eq s f1 f2 n1_def n2_def)
  have t1: "take 3 es1 = [es1 ! 0, es1 ! 1, es1 ! 2]" using assms(3) by (rule take3_of_5)
  have t2: "take 3 es2 = [es2 ! 0, es2 ! 1, es2 ! 2]" using assms(4) by (rule take3_of_5)
  define arts where "arts = [entry_article n1 (es1 ! 0), entry_article n1 (es1 ! 1),
    entry_article n1 (es1 ! 2), entry_article n2 (es2 ! 0), entry_article n2 (es2 ! 1),
    entry_article n2 (es2 ! 2)]"
  have fa: "fst (fetch_rss_articles L [u1, u2] (Some 3)) = arts"
    unfolding fetch t1 t2 arts_def by simp
  have ane: "arts \<noteq> []" unfolding arts_def by simp
  have tk: "take 20 arts = arts" unfolding arts_def by simp
  have fmt: "format_news_briefing d arts =
      dateline d @ concat (article_blocks arts) @ sign_off"
    using format_nonempty [OF ane, of d] unfolding tk .
  have blocks: "concat (article_blocks arts) @ sign_off =
      spoken_block (py ''From'') (entry_article n1 (es1 ! 0))
      @ spoken_block (py ''Next, from'') (entry_article n1 (es1 ! 1))
      @ spoken_block (py ''Next, from'') (entry_article n1 (es1 ! 2))
      @ spoken_block (py ''Next, from'') (entry_article n2 (es2 ! 0))
      @ spoken_block (py ''Next, from'') (entry_article n2 (es2 ! 1))
      @ spoken_block (py ''Next, from'') (entry_article n2 (es2 ! 2))
      @ sign_off"
    unfolding arts_def by (simp only: article_blocks.simps list.map concat.simps append_assoc append_Nil)
  have ex: "\<exists>a1 a2 a3 a4 a5 a6.
            fst (fetch_rss_articles L [u1, u2] (Some 3)) = [a1, a2, a3, a4, a5, a6] \<and>
            format_news_briefing d (fst (fetch_rss_articles L [u1, u2] (Some 3))) =
              dateline d
              @ spoken_block (py ''From'') a1
              @ spoken_block (py ''Next, from'') a2
              @ spoken_block (py ''Next, from'') a3
              @ spoken_block (py ''Next, from'') a4
              @ spoken_block (py ''Next, from'') a5
              @ spoken_block (py ''Next, from'') a6
              @ sign_off"
    unfolding fa
    apply (rule exI [of _ "entry_article n1 (es1 ! 0)"])
    apply (rule exI [of _ "entry_article n1 (es1 ! 1)"])
    apply (rule exI [of _ "entry_article n1 (es1 ! 2)"])
    apply (rule exI [of _ "entry_article n2 (es2 ! 0)"])
    apply (rule exI [of _ "entry_article n2 (es2 ! 1)"])
    apply (rule exI [of _ "entry_article n2 (es2 ! 2)"])
    apply (rule conjI)
     apply (rule arts_def)
    apply (simp only: fmt blocks)
    done
  have l1: "length (fst (fetch_rss_articles L [u1, u2] (Some 3))) = 6"
    unfolding fa arts_def by simp
  have l2: "length (snd (fetch_rss_articles L [u1, u2] (Some 3))) = 2"
    unfolding fetch by simp
  show ?thesis using fetch l1 l2 ex unfolding n1_def n2_def by (intro conjI)
qed

lemma demo_titled:
  "list_all titled (map demo_entry [py ''B1'', py ''B2'', py ''B3'', py ''B4'', py ''B5''])"
  "list_all titled (map demo_entry [py ''N1'', py ''N2'', py ''N3'', py ''N4'', py ''N5''])"
  using demo_titles by (simp_all add: titled_def demo_entry_def dict_get_def)

theorem two_feeds_scenario_witness:
  "feedparser_parse demo_lib (py ''https://feeds.bbci.co.uk/news/rss.xml'') =
     Inr (map demo_entry [py ''B1'', py ''B2'', py ''B3'', py ''B4'', py ''B5'']) \<and>
   feedparser_parse demo_lib (py ''https://rss.nytimes.com/World.xml'') =
     Inr (map demo_entry [py ''N1'', py ''N2'', py ''N3'', py ''N4'', py ''N5'']) \<and>
   list_all titled (map demo_entry [py ''B1'', py ''B2'', py ''B3'', py ''B4'', py ''B5'']) \<and>
   list_all titled (map demo_entry [py ''N1'', py ''N2'', py ''N3'', py ''N4'', py ''N5'']) \<and>
   get_source_name demo_lib (py ''https://feeds.bbci.co.uk/news/rss.xml'') = py ''BBC News'' \<and>
   get_source_name demo_lib (py ''https://rss.nytimes.com/World.xml'') = py ''New York Times'' \<and>
   length (fst (fetch_rss_articles demo_lib
     [py ''https://feeds.bbci.co.uk/news/rss.xml'', py ''https://rss.nytimes.com/World.xml'']
     (Some 3))) = 6 \<and>
   snd (fetch_rss_articles demo_lib
     [py ''https://feeds.bbci.co.uk/news/rss.xml'', py ''https://rss.nytimes.com/World.xml'']
     (Some 3)) = [py ''BBC News'', py ''New York Times'']"
proof -
  let ?u1 = "py ''https://feeds.bbci.co.uk/news/rss.xml''"
  let ?u2 = "py ''https://rss.nytimes.com/World.xml''"
  let ?es1 = "map demo_entry [py ''B1'', py ''B2'', py ''B3'', py ''B4'', py ''B5'']"
  let ?es2 = "map demo_entry [py ''N1'', py ''N2'', py ''N3'', py ''N4'', py ''N5'']"
  have p1: "feedparser_parse demo_lib ?u1 = Inr ?es1" by (simp add: demo_lib_def demo_parse_def)
  have p2: "feedparser_parse demo_lib ?u2 = Inr ?es2" by (simp add: demo_lib_def demo_parse_def)
  have l1: "length ?es1 = 5" by simp
  have l2: "length ?es2 = 5" by simp
  have t: "\<forall>e \<in> set ?es1 \<union> set ?es2. titled e"
    using demo_titled by (simp add: list_all_iff)
  have n: "get_source_name demo_lib ?u1 \<noteq> get_source_name demo_lib ?u2"
    using demo_bbc demo_nyt by simp
  have "fetch_rss_articles demo_lib [?u1, ?u2] (Some 3) =
           (map (entry_article (get_source_name demo_lib ?u1)) (take 3 ?es1) @
            map (entry_article (get_source_name demo_lib ?u2)) (take 3 ?es2),
            [get_source_name demo_lib ?u1, get_source_name demo_lib ?u2]) \<and>
         length (fst (fetch_rss_articles demo_lib [?u1, ?u2] (Some 3))) = 6"
    using two_feeds_scenario [OF p1 p2 l1 l2 t n, of "py ''Monday, June 02''"] by (elim conjE) (intro conjI)
  then have "length (fst (fetch_rss_articles demo_lib [?u1, ?u2] (Some 3))) = 6"
    and "snd (fetch_rss_articles demo_lib [?u1, ?u2] (Some 3)) =
           [get_source_name demo_lib ?u1, get_source_name demo_lib ?u2]"
    by simp_all
  then show ?thesis using p1 p2 demo_titled demo_bbc demo_nyt by simp
qed

section \<open>The mixer at a long speech\<close>

lemma concat_replicate_replicate:
  "concat (replicate m (replicate n x)) = replicate (m * n) x"
  by (induction m) (simp_all add: replicate_add)

lemma concat_replicate_single: "concat (replicate m [x]) = replicate m x"
  by (induction m) simp_all

lemma map2_replicate_append:
  "map2 f (replicate a x @ replicate b y) (replicate (a + b) z) =
     replicate a (f x z) @ replicate b (f y z)"
  by (simp add: replicate_add zip_append)

lemma demo_lengths:
  "seg_len demo_speech = 359999" "seg_len demo_background = 60000"
  "seg_len demo_mixed = 359998"
  by (simp_all add: seg_len_def py_round_def demo_speech_def demo_background_def
      demo_mixed_def Let_def)

lemma demo_loop:
  "loop_background demo_background 359999 =
     Inr \<lparr>frame_rate = 44100, frames = replicate 15875892 8\<rparr>"
proof -
  have "seg_mul demo_background 6 = \<lparr>frame_rate = 44100, frames = replicate 15875892 8\<rparr>"
    by (simp add: seg_mul_def demo_background_def concat_replicate_replicate)
  moreover have "(359999::nat) div 60000 + 1 = 6" by simp
  ultimately show ?thesis by (simp add: loop_background_def demo_lengths Let_def)
qed

lemma demo_looped_len:
  "seg_len \<lparr>frame_rate = 44100, frames = replicate 15875892 (8::int)\<rparr> = 359998"
  by (simp add: seg_len_def py_round_def Let_def)

lemma demo_slice:
  "seg_slice_to (\<lambda>s. 0) 359999 \<lparr>frame_rate = 44100, frames = replicate 15875892 (8::int)\<rparr> =
     Inr \<lparr>frame_rate = 44100, frames = replicate 15875892 8 @ replicate 19 0\<rparr>"
proof -
  have t1: "take 1 (replicate 15875892 (8::int)) = [8]"
    by (simp add: take_Suc_conv_app_nth)
  show ?thesis
    by (simp add: seg_slice_to_def demo_looped_len parse_position_def Let_def t1
        concat_replicate_single)
qed

lemma demo_quiet:
  "seg_gain demo_audio (- 15)
     \<lparr>frame_rate = 44100, frames = replicate 15875892 8 @ replicate 19 0\<rparr> =
     \<lparr>frame_rate = 44100, frames = replicate 15875892 2 @ replicate 19 0\<rparr>"
  by (simp add: seg_gain_def demo_audio_def)

lemma demo_quiet_len:
  "seg_len \<lparr>frame_rate = 44100, frames = replicate 15875892 (2::int) @ replicate 19 0\<rparr> = 359998"
  by (simp add: seg_len_def py_round_def Let_def)

lemma demo_quiet_head:
  "seg_slice_to (\<lambda>s. 0) 0
     \<lparr>frame_rate = 44100, frames = replicate 15875892 (2::int) @ replicate 19 0\<rparr> =
     Inr \<lparr>frame_rate = 44100, frames = []\<rparr>"
  by (simp add: seg_slice_to_def parse_position_def Let_def)

lemma demo_quiet_rest:
  "seg_slice_to (\<lambda>s. 0) 359998
     \<lparr>frame_rate = 44100, frames = replicate 15875892 (2::int) @ replicate 19 0\<rparr> =
     Inr \<lparr>frame_rate = 44100, frames = replicate 15875892 2 @ replicate 19 0\<rparr>"
  by (simp add: seg_slice_to_def demo_quiet_len parse_position_def Let_def)

lemma demo_overlay:
  "seg_overlay demo_audio
     \<lparr>frame_rate = 44100, frames = replicate 15875892 2 @ replicate 19 0\<rparr> demo_speech =
     Inr demo_mixed"
proof -
  have s: "sync demo_audio = Pair" "silent_frame demo_audio = (\<lambda>s. 0)"
    "mix_sample demo_audio = (\<lambda>b x. b + x)"
    by (simp_all add: demo_audio_def)
  have d2: "take 15875911 (frames demo_speech) = replicate (15875892 + 19) 1"
    by (simp add: demo_speech_def)
  have m: "map2 (\<lambda>b x. b + x) (replicate 15875892 (2::int) @ replicate 19 0)
             (replicate (15875892 + 19) 1) = replicate 15875892 3 @ replicate 19 1"
    by (simp only: map2_replicate_append) simp
  have l: "length (replicate 15875892 (2::int) @ replicate 19 (0::int)) = 15875911" by simp
  have l2: "length (replicate (15875892 + 19) (1::int)) = 15875911" by simp
  have tk: "take 15875911 (replicate 15875892 (2::int) @ replicate 19 0) =
      replicate 15875892 2 @ replicate 19 0"
    using l by (simp only: take_all order_refl)
  have dr: "drop 15875911 (replicate 15875892 (2::int) @ replicate 19 (0::int)) = []"
    using l by (simp only: drop_all order_refl)
  show ?thesis
    unfolding seg_overlay_def s
    by (simp only: prod.case demo_quiet_len demo_quiet_head demo_quiet_rest sum.case Let_def
        segment.simps l d2 l2 tk dr m append_Nil append_Nil2 demo_mixed_def)
qed

lemma demo_mix_segments: "mix_segments demo_audio demo_speech demo_background = Inr demo_mixed"
proof -
  have s: "silent_frame demo_audio = (\<lambda>s. 0)" by (simp add: demo_audio_def)
  show ?thesis
    unfolding mix_segments_def s
    by (simp only: Let_def demo_lengths demo_loop sum.case demo_slice demo_quiet demo_overlay)
qed

lemma demo_mix: "mix_audio_with_music demo_audio [73, 68, 51] = Inr (Mixed demo_mixed)"
proof -
  have "mix_body demo_audio [73, 68, 51] = Inr (Mixed demo_mixed)"
    unfolding mix_body_def using demo_mix_segments by (simp add: demo_audio_def)
  then show ?thesis by (simp add: mix_audio_with_music_def)
qed

text \<open>
  C3 fails on the code. The speech lasts 359999 milliseconds and the background
  59.9996 seconds, which \<open>len\<close> rounds to 60000 milliseconds. The mixer takes
  \<open>359999 // 60000 + 1 = 6\<close> loops of the background: 15875892 frames, 359998
  milliseconds by \<open>len\<close>, one less than the speech. The cut at the duration of the
  speech cannot make the track longer, and the overlay keeps the duration of its
  base: the track saved lasts 359998 milliseconds, where the claim has the 359999
  milliseconds of the speech.
\<close>

theorem mixed_duration_short_of_speech:
  "from_file_mp3 demo_audio [73, 68, 51] = Inr demo_speech \<and>
   seg_len demo_speech = 359999 \<and>
   from_file_background demo_audio = Inr demo_background \<and>
   seg_len demo_background = 60000 \<and>
   loop_background demo_background 359999 =
     Inr \<lparr>frame_rate = 44100, frames = replicate 15875892 8\<rparr> \<and>
   seg_len \<lparr>frame_rate = 44100, frames = replicate 15875892 (8::int)\<rparr> = 359998 \<and>
   mix_audio_with_music demo_audio [73, 68, 51] = Inr (Mixed demo_mixed) \<and>
   seg_len demo_mixed = 359998"
proof -
  have "from_file_mp3 demo_audio [73, 68, 51] = Inr demo_speech"
    and "from_file_background demo_audio = Inr demo_background"
    by (simp_all add: demo_audio_def)
  then show ?thesis using demo_lengths demo_loop demo_looped_len demo_mix by (intro conjI)
qed

section \<open>Properties of the synthesizer client and of the handler\<close>

text \<open>
  C8. A Murf response without \<open>audioFile\<close> (absent, or empty): the client raises
  \<open>HTTPException\<close> 500 \<open>No audio file URL in Murf response\<close>, and the only call made
  is the request to Murf: nothing is downloaded and no file is saved.
\<close>

theorem no_audio_url_no_file:
  assumes "murf_post env text voice fmt = Inr response_data"
    and "audioFile response_data = None \<or> audioFile response_data = Some []"
  shows "generate_audio_with_murf env text voice fmt =
           ([MurfPost text voice fmt],
            Inl (HTTPException 500 (py ''No audio file URL in Murf response''))) \<and>
         (\<forall>s. FileSaved s \<notin> set (fst (generate_audio_with_murf env text voice fmt))) \<and>
         (\<forall>url. AudioDownload url \<notin> set (fst (generate_audio_with_murf env text voice fmt)))"
proof -
  have g: "generate_audio_with_murf env text voice fmt =
           ([MurfPost text voice fmt],
            Inl (HTTPException 500 (py ''No audio file URL in Murf response'')))"
    using assms(2)
  proof
    assume "audioFile response_data = None"
    then show ?thesis using assms(1) by (simp add: generate_audio_with_murf_def)
  next
    assume "audioFile response_data = Some []"
    then show ?thesis using assms(1) by (simp add: generate_audio_with_murf_def)
  qed
  show ?thesis unfolding g by simp
qed

theorem no_audio_url_no_file_witness:
  "murf_post demo_murf (py ''Hello'') (py ''en-US-natalie'') (py ''MP3'') =
     Inr \<lparr>audioFile = None, audioLengthInSeconds = Some 12,
          consumedCharacterCount = Some 300, remainingCharacterCount = Some 700\<rparr> \<and>
   generate_audio_with_murf demo_murf (py ''Hello'') (py ''en-US-natalie'') (py ''MP3'') =
     ([MurfPost (py ''Hello'') (py ''en-US-natalie'') (py ''MP3'')],
      Inl (HTTPException 500 (py ''No audio file URL in Murf response'')))"
proof -
  have p: "murf_post demo_murf (py ''Hello'') (py ''en-US-natalie'') (py ''MP3'') =
     Inr \<lparr>audioFile = None, audioLengthInSeconds = Some 12,
          consumedCharacterCount = Some 300, remainingCharacterCount = Some 700\<rparr>"
    by (simp add: demo_murf_def)
  have a: "audioFile \<lparr>audioFile = None, audioLengthInSeconds = Some 12,
          consumedCharacterCount = Some 300, remainingCharacterCount = Some 700\<rparr> = None \<or>
        audioFile \<lparr>audioFile = None, audioLengthInSeconds = Some 12,
          consumedCharacterCount = Some 300, remainingCharacterCount = Some 700\<rparr> = Some []"
    by simp
  show ?thesis using p no_audio_url_no_file [OF p a] by (intro conjI) (elim conjE, assumption)+
qed

lemma demo_key: "\<not> key_not_configured (MURF_API_KEY demo_env)"
  by (simp add: demo_env_def key_not_configured_def sublist_Cons_right)

lemma demo_fetch_down:
  "fetch_rss_articles (lib demo_env) (feeds (demo_request [py ''https://down.example.org/feed'']))
     (max_articles_per_feed (demo_request [py ''https://down.example.org/feed''])) = ([], [])"
  using demo_parse_down by (simp add: demo_env_def demo_request_def fetch_rss_articles_def)

text \<open>
  C6. With an empty feed list, or with a key that is missing or holds the
  placeholder, the handler raises before any external call; when the fetcher finds no
  article, it raises \<open>Could not find any articles\<close> after the feed requests alone; and
  a request to Murf is among the calls only when the feed list is not empty, the key
  is configured and the fetcher found an article.
\<close>

theorem synthesis_only_after_preconditions:
  "(feeds request = [] \<longrightarrow>
      generate_briefing env request =
        ([], Inl (HTTPException 400 (py ''No RSS feed URLs provided'')))) \<and>
   (feeds request \<noteq> [] \<and> key_not_configured (MURF_API_KEY env) \<longrightarrow>
      generate_briefing env request =
        ([], Inl (HTTPException 500 (py ''Murf API key is not configured on the server.'')))) \<and>
   (feeds request \<noteq> [] \<and> \<not> key_not_configured (MURF_API_KEY env) \<and>
    fst (fetch_rss_articles (lib env) (feeds request) (max_articles_per_feed request)) = [] \<longrightarrow>
      generate_briefing env request =
        (map FeedRequest (feeds request),
         Inl (HTTPException 400
                (py ''Could not find any articles from the provided feeds.'')))) \<and>
   (MurfPost t v f \<in> set (fst (generate_briefing env request)) \<longrightarrow>
      feeds request \<noteq> [] \<and> \<not> key_not_configured (MURF_API_KEY env) \<and>
      fst (fetch_rss_articles (lib env) (feeds request) (max_articles_per_feed request)) \<noteq> [])"
proof -
  obtain articles sources_used where
    fr: "fetch_rss_articles (lib env) (feeds request) (max_articles_per_feed request) =
           (articles, sources_used)"
    by (cases "fetch_rss_articles (lib env) (feeds request) (max_articles_per_feed request)")
  have a: "feeds request = [] \<longrightarrow>
      generate_briefing env request =
        ([], Inl (HTTPException 400 (py ''No RSS feed URLs provided'')))"
    by (simp add: generate_briefing_def)
  have b: "feeds request \<noteq> [] \<and> key_not_configured (MURF_API_KEY env) \<longrightarrow>
      generate_briefing env request =
        ([], Inl (HTTPException 500 (py ''Murf API key is not configured on the server.'')))"
    by (simp add: generate_briefing_def)
  have c: "feeds request \<noteq> [] \<and> \<not> key_not_configured (MURF_API_KEY env) \<and>
    fst (fetch_rss_articles (lib env) (feeds request) (max_articles_per_feed request)) = [] \<longrightarrow>
      generate_briefing env request =
        (map FeedRequest (feeds request),
         Inl (HTTPException 400
                (py ''Could not find any articles from the provided feeds.'')))"
    unfolding fr by (simp add: generate_briefing_def fr)
  have d: "feeds request \<noteq> [] \<and> \<not> key_not_configured (MURF_API_KEY env) \<and>
      fst (fetch_rss_articles (lib env) (feeds request) (max_articles_per_feed request)) \<noteq> []"
    if m: "MurfPost t v f \<in> set (fst (generate_briefing env request))"
  proof -
    have 1: "feeds request \<noteq> []"
    proof
      assume "feeds request = []"
      then have "fst (generate_briefing env request) = []" using a by simp
      then show False using m by simp
    qed
    have 2: "\<not> key_not_configured (MURF_API_KEY env)"
    proof
      assume "key_not_configured (MURF_API_KEY env)"
      then have "fst (generate_briefing env request) = []" using b 1 by simp
      then show False using m by simp
    qed
    have 3: "articles \<noteq> []"
    proof
      assume "articles = []"
      then have "fst (generate_briefing env request) = map FeedRequest (feeds request)"
        using c 1 2 fr by simp
      then show False using m by auto
    qed
    show ?thesis using 1 2 3 fr by simp
  qed
  show ?thesis using a b c d by blast
qed

theorem synthesis_only_after_preconditions_witness:
  "feeds (demo_request []) = [] \<and>
   generate_briefing demo_env (demo_request []) =
     ([], Inl (HTTPException 400 (py ''No RSS feed URLs provided''))) \<and>
   feeds (demo_request [py ''https://down.example.org/feed'']) \<noteq> [] \<and>
   \<not> key_not_configured (MURF_API_KEY demo_env) \<and>
   generate_briefing demo_env (demo_request [py ''https://down.example.org/feed'']) =
     ([FeedRequest (py ''https://down.example.org/feed'')],
      Inl (HTTPException 400 (py ''Could not find any articles from the provided feeds.'')))"
proof -
  have e: "feeds (demo_request []) = []" by (simp add: demo_request_def)
  have 1: "generate_briefing demo_env (demo_request []) =
     ([], Inl (HTTPException 400 (py ''No RSS feed URLs provided'')))"
    using synthesis_only_after_preconditions [of "demo_request []" demo_env] e by blast
  have f: "feeds (demo_request [py ''https://down.example.org/feed'']) =
      [py ''https://down.example.org/feed'']"
    by (simp add: demo_request_def)
  have ne: "feeds (demo_request [py ''https://down.example.org/feed'']) \<noteq> []"
    unfolding f by simp
  have z: "fst (fetch_rss_articles (lib demo_env)
      (feeds (demo_request [py ''https://down.example.org/feed'']))
      (max_articles_per_feed (demo_request [py ''https://down.example.org/feed'']))) = []"
    unfolding demo_fetch_down by simp
  have "generate_briefing demo_env (demo_request [py ''https://down.example.org/feed'']) =
     (map FeedRequest (feeds (demo_request [py ''https://down.example.org/feed''])),
      Inl (HTTPException 400 (py ''Could not find any articles from the provided feeds.'')))"
    using synthesis_only_after_preconditions
      [of "demo_request [py ''https://down.example.org/feed'']" demo_env] ne demo_key z
    by blast
  then have 2: "generate_briefing demo_env (demo_request [py ''https://down.example.org/feed'']) =
     ([FeedRequest (py ''https://down.example.org/feed'')],
      Inl (HTTPException 400 (py ''Could not find any articles from the provided feeds.'')))"
    unfolding f by simp
  show ?thesis using e 1 ne demo_key 2 by (intro conjI)
qed

section \<open>The source name of a host with an inner www.\<close>

lemma demo_awww:
  "get_source_name demo_lib (py ''https://awww.example.com/rss'') = py ''Aexample''"
  by (simp add: get_source_name_def demo_lib_def ascii_lower_def source_mapping_def
      sublist_Cons_right demo_netloc_def str_replace_Nil str_replace_Cons ascii_title_def)

text \<open>
  C9 fails on the code. In the feed URL \<open>https://awww.example.com/rss\<close> no key of the
  table occurs, and the host is \<open>awww.example.com\<close>. It has no leading \<open>www.\<close>: with a
  leading \<open>www.\<close> stripped and the first label capitalized, as the claim has it, the
  name is \<open>Awww\<close>. \<open>get_source_name\<close> returns \<open>Aexample\<close>: \<open>replace\<close> removes the
  \<open>www.\<close> inside the host.
\<close>

theorem get_source_name_removes_inner_www:
  "urlparse_netloc demo_lib (py ''https://awww.example.com/rss'') = Inr (py ''awww.example.com'') \<and>
   mapping_loop source_mapping (str_lower demo_lib (py ''https://awww.example.com/rss'')) = None \<and>
   capitalize_first (first_label (strip_leading_www (py ''awww.example.com''))) = py ''Awww'' \<and>
   get_source_name demo_lib (py ''https://awww.example.com/rss'') = py ''Aexample'' \<and>
   get_source_name demo_lib (py ''https://awww.example.com/rss'') \<noteq>
     capitalize_first (first_label (strip_leading_www (py ''awww.example.com'')))"
proof -
  have 1: "urlparse_netloc demo_lib (py ''https://awww.example.com/rss'') = Inr (py ''awww.example.com'')"
    by (simp add: demo_lib_def demo_netloc_def)
  have 2: "mapping_loop source_mapping (str_lower demo_lib (py ''https://awww.example.com/rss'')) = None"
    by (simp add: demo_lib_def ascii_lower_def source_mapping_def sublist_Cons_right)
  have 3: "capitalize_first (first_label (strip_leading_www (py ''awww.example.com''))) = py ''Awww''"
    by (simp add: capitalize_first_def first_label_def strip_leading_www_def)
  show ?thesis using 1 2 3 demo_awww by simp
qed

section \<open>Cleaning a cleaned text\<close>

lemma sublist_append_skip:
  assumes "p \<noteq> []" and "hd p \<notin> set n" and "sublist p (n @ ys)"
  shows "sublist p ys"
  using assms(2,3)
proof (induction n)
  case Nil
  then show ?case by simp
next
  case (Cons x n)
  from Cons.prems(2) have "prefix p (x # n @ ys) \<or> sublist p (n @ ys)"
    by (simp add: sublist_Cons_right)
  then show ?case
  proof
    assume "prefix p (x # n @ ys)"
    then have "hd p = x" using assms(1) by (cases p) simp_all
    then show ?thesis using Cons.prems(1) by simp
  next
    assume "sublist p (n @ ys)"
    then show ?thesis using Cons.IH Cons.prems(1) by simp
  qed
qed

lemma prefix_str_replace:
  assumes "\<forall>q. suffix q p \<longrightarrow> q \<noteq> [] \<longrightarrow> \<not> prefix q new \<and> \<not> prefix new q"
    and "prefix p (str_replace (a # old) new s)"
  shows "prefix p s"
  using assms
proof (induction s arbitrary: p rule: length_induct)
  case (1 s)
  show ?case
  proof (cases "p = []")
    case True
    then show ?thesis by simp
  next
    case pne: False
    show ?thesis
    proof (cases s)
      case Nil
      then show ?thesis using "1.prems"(2) by (simp add: str_replace_Nil)
    next
      case (Cons c cs)
      show ?thesis
      proof (cases "prefix (a # old) (c # cs)")
        case True
        then have "str_replace (a # old) new s =
            new @ str_replace (a # old) new (drop (length old) cs)"
          using Cons by (simp add: str_replace_Cons del: Cons_prefix_Cons)
        then have "prefix p (new @ str_replace (a # old) new (drop (length old) cs))"
          using "1.prems"(2) by simp
        then have "prefix p new \<or> prefix new p"
          by (auto simp: prefix_append)
        moreover have "\<not> prefix p new \<and> \<not> prefix new p"
          using "1.prems"(1) pne by simp
        ultimately show ?thesis by blast
      next
        case False
        then have "str_replace (a # old) new s = c # str_replace (a # old) new cs"
          using Cons by (simp add: str_replace_Cons del: Cons_prefix_Cons)
        then have pp: "prefix p (c # str_replace (a # old) new cs)"
          using "1.prems"(2) by simp
        from pne obtain x p' where p: "p = x # p'" by (cases p) auto
        have x: "x = c" and p': "prefix p' (str_replace (a # old) new cs)"
          using pp p by simp_all
        have "\<forall>q. suffix q p' \<longrightarrow> q \<noteq> [] \<longrightarrow> \<not> prefix q new \<and> \<not> prefix new q"
          using "1.prems"(1) p by (simp add: suffix_Cons)
        moreover have "length cs < length s" using Cons by simp
        ultimately have "prefix p' cs" using "1.IH" p' by blast
        then show ?thesis using p x Cons by simp
      qed
    qed
  qed
qed

lemma no_old_after_replace:
  assumes "a \<notin> set new"
    and "\<forall>q. suffix q (a # old) \<longrightarrow> q \<noteq> [] \<longrightarrow> \<not> prefix q new \<and> \<not> prefix new q"
  shows "\<not> sublist (a # old) (str_replace (a # old) new s)"
proof (induction s rule: length_induct)
  case (1 s)
  show ?case
  proof (cases s)
    case Nil
    then show ?thesis by (simp add: str_replace_Nil)
  next
    case (Cons c cs)
    show ?thesis
    proof (cases "prefix (a # old) (c # cs)")
      case True
      then have e: "str_replace (a # old) new s =
          new @ str_replace (a # old) new (drop (length old) cs)"
        using Cons by (simp add: str_replace_Cons del: Cons_prefix_Cons)
      have "length (drop (length old) cs) < length s" using Cons by simp
      then have ih: "\<not> sublist (a # old) (str_replace (a # old) new (drop (length old) cs))"
        using 1 by blast
      show ?thesis
      proof
        assume "sublist (a # old) (str_replace (a # old) new s)"
        then have "sublist (a # old) (new @ str_replace (a # old) new (drop (length old) cs))"
          using e by simp
        then have "sublist (a # old) (str_replace (a # old) new (drop (length old) cs))"
          using assms(1) sublist_append_skip [of "a # old" new] by simp
        then show False using ih by simp
      qed
    next
      case False
      then have e: "str_replace (a # old) new s = c # str_replace (a # old) new cs"
        using Cons by (simp add: str_replace_Cons del: Cons_prefix_Cons)
      have "length cs < length s" using Cons by simp
      then have ih: "\<not> sublist (a # old) (str_replace (a # old) new cs)" using 1 by blast
      show ?thesis
      proof
        assume "sublist (a # old) (str_replace (a # old) new s)"
        then have "prefix (a # old) (str_replace (a # old) new s) \<or>
                   sublist (a # old) (str_replace (a # old) new cs)"
          unfolding e by (simp add: sublist_Cons_right del: Cons_prefix_Cons)
        then have "prefix (a # old) (str_replace (a # old) new s)" using ih by simp
        then have "prefix (a # old) s" using assms(2) prefix_str_replace by blast
        then show False using False Cons by simp
      qed
    qed
  qed
qed

lemma sublist_before_replace:
  assumes "p \<noteq> []" and "hd p \<notin> set new"
    and "\<forall>q. suffix q p \<longrightarrow> q \<noteq> [] \<longrightarrow> \<not> prefix q new \<and> \<not> prefix new q"
  shows "sublist p (str_replace (a # old) new s) \<Longrightarrow> sublist p s"
proof (induction s rule: length_induct)
  case (1 s)
  show ?case
  proof (cases s)
    case Nil
    then show ?thesis using "1.prems" by (simp add: str_replace_Nil)
  next
    case (Cons c cs)
    show ?thesis
    proof (cases "prefix (a # old) (c # cs)")
      case True
      then have e: "str_replace (a # old) new s =
          new @ str_replace (a # old) new (drop (length old) cs)"
        using Cons by (simp add: str_replace_Cons del: Cons_prefix_Cons)
      have "sublist p (str_replace (a # old) new (drop (length old) cs))"
        using "1.prems" assms(1,2) sublist_append_skip [of p new] unfolding e by blast
      moreover have "length (drop (length old) cs) < length s" using Cons by simp
      ultimately have "sublist p (drop (length old) cs)" using "1.IH" by blast
      moreover have "sublist (drop (length old) cs) s"
        unfolding Cons by (metis sublist_Cons_right sublist_drop)
      ultimately show ?thesis by (rule sublist_order.order_trans)
    next
      case False
      then have e: "str_replace (a # old) new s = c # str_replace (a # old) new cs"
        using Cons by (simp add: str_replace_Cons del: Cons_prefix_Cons)
      have "prefix p (str_replace (a # old) new s) \<or> sublist p (str_replace (a # old) new cs)"
        using "1.prems" unfolding e by (simp add: sublist_Cons_right)
      then show ?thesis
      proof
        assume "prefix p (str_replace (a # old) new s)"
        then have "prefix p s" using assms(3) prefix_str_replace by blast
        then show ?thesis by (rule prefix_imp_sublist)
      next
        assume "sublist p (str_replace (a # old) new cs)"
        moreover have "length cs < length s" using Cons by simp
        ultimately have "sublist p cs" using "1.IH" by blast
        then show ?thesis unfolding Cons by (simp add: sublist_Cons_right)
      qed
    qed
  qed
qed

lemma str_replace_absent:
  "\<not> sublist (a # old) s \<Longrightarrow> str_replace (a # old) new s = s"
proof (induction s)
  case Nil
  show ?case by (simp add: str_replace_Nil)
next
  case (Cons c cs)
  have np: "\<not> prefix (a # old) (c # cs)"
    using Cons.prems prefix_imp_sublist by blast
  have "\<not> sublist (a # old) cs" using Cons.prems by (simp add: sublist_Cons_right)
  then have "str_replace (a # old) new cs = cs" by (rule Cons.IH)
  then show ?case using np by (simp add: str_replace_Cons del: Cons_prefix_Cons)
qed

lemma clash_free_disjoint:
  assumes "new \<noteq> []" and "set new \<inter> set p = {}"
  shows "\<forall>q. suffix q p \<longrightarrow> q \<noteq> [] \<longrightarrow> \<not> prefix q new \<and> \<not> prefix new q"
proof (intro allI impI)
  fix q :: "'a list"
  assume s: "suffix q p" and q: "q \<noteq> []"
  have "hd q \<in> set q" using q by simp
  then have hq: "hd q \<in> set p" using s set_mono_suffix by blast
  have hn: "hd new \<in> set new" using assms(1) by simp
  have "hd q = hd new" if "prefix q new \<or> prefix new q"
    using that q assms(1) by (cases q; cases new) auto
  then show "\<not> prefix q new \<and> \<not> prefix new q" using hq hn assms(2) by auto
qed

lemma clash_free_amp_and:
  "\<forall>q. suffix q (py ''&amp;'') \<longrightarrow> q \<noteq> [] \<longrightarrow> \<not> prefix q (py ''and'') \<and> \<not> prefix (py ''and'') q"
  by (auto simp: suffix_Cons)

lemma clean_text_eq:
  "clean_text s =
     str_replace (py ''&gt;'') (py ''>'')
       (str_replace (py ''&lt;'') (py ''<'')
          (str_replace (py ''&amp;'') (py ''and'') (str_join [32] (str_split (strip_tags s)))))"
  by (simp add: clean_text_def str_split_Nil str_replace_Nil)

lemma clean_text_free:
  "\<not> sublist (py ''&amp;'') (clean_text s) \<and> \<not> sublist (py ''&lt;'') (clean_text s) \<and>
   \<not> sublist (py ''&gt;'') (clean_text s)"
proof -
  define x where "x = str_join [32] (str_split (strip_tags s))"
  define y1 where "y1 = str_replace (py ''&amp;'') (py ''and'') x"
  define y2 where "y2 = str_replace (py ''&lt;'') (py ''<'') y1"
  define y3 where "y3 = str_replace (py ''&gt;'') (py ''>'') y2"
  have c: "clean_text s = y3" unfolding y3_def y2_def y1_def x_def by (rule clean_text_eq)
  have amp_lt: "\<forall>q. suffix q (py ''&amp;'') \<longrightarrow> q \<noteq> [] \<longrightarrow>
      \<not> prefix q (py ''<'') \<and> \<not> prefix (py ''<'') q"
    by (rule clash_free_disjoint) simp_all
  have amp_gt: "\<forall>q. suffix q (py ''&amp;'') \<longrightarrow> q \<noteq> [] \<longrightarrow>
      \<not> prefix q (py ''>'') \<and> \<not> prefix (py ''>'') q"
    by (rule clash_free_disjoint) simp_all
  have lt_lt: "\<forall>q. suffix q (py ''&lt;'') \<longrightarrow> q \<noteq> [] \<longrightarrow>
      \<not> prefix q (py ''<'') \<and> \<not> prefix (py ''<'') q"
    by (rule clash_free_disjoint) simp_all
  have lt_gt: "\<forall>q. suffix q (py ''&lt;'') \<longrightarrow> q \<noteq> [] \<longrightarrow>
      \<not> prefix q (py ''>'') \<and> \<not> prefix (py ''>'') q"
    by (rule clash_free_disjoint) simp_all
  have gt_gt: "\<forall>q. suffix q (py ''&gt;'') \<longrightarrow> q \<noteq> [] \<longrightarrow>
      \<not> prefix q (py ''>'') \<and> \<not> prefix (py ''>'') q"
    by (rule clash_free_disjoint) simp_all
  have a1: "\<not> sublist (py ''&amp;'') y1"
    unfolding y1_def using no_old_after_replace [of 38 "py ''and''" "py ''amp;''" x]
      clash_free_amp_and by simp
  have a2: "\<not> sublist (py ''&amp;'') y2"
  proof
    assume "sublist (py ''&amp;'') y2"
    then have "sublist (py ''&amp;'') y1"
      unfolding y2_def
      using sublist_before_replace [of "py ''&amp;''" "py ''<''" 38 "py ''lt;''" y1] amp_lt
      by simp
    then show False using a1 by simp
  qed
  have a3: "\<not> sublist (py ''&amp;'') y3"
  proof
    assume "sublist (py ''&amp;'') y3"
    then have "sublist (py ''&amp;'') y2"
      unfolding y3_def
      using sublist_before_replace [of "py ''&amp;''" "py ''>''" 38 "py ''gt;''" y2] amp_gt
      by simp
    then show False using a2 by simp
  qed
  have l2: "\<not> sublist (py ''&lt;'') y2"
    unfolding y2_def using no_old_after_replace [of 38 "py ''<''" "py ''lt;''" y1] lt_lt
    by simp
  have l3: "\<not> sublist (py ''&lt;'') y3"
  proof
    assume "sublist (py ''&lt;'') y3"
    then have "sublist (py ''&lt;'') y2"
      unfolding y3_def
      using sublist_before_replace [of "py ''&lt;''" "py ''>''" 38 "py ''gt;''" y2] lt_gt
      by simp
    then show False using l2 by simp
  qed
  have g3: "\<not> sublist (py ''&gt;'') y3"
    unfolding y3_def using no_old_after_replace [of 38 "py ''>''" "py ''gt;''" y2] gt_gt
    by simp
  show ?thesis unfolding c using a3 l3 g3 by (intro conjI)
qed

lemma clean_text_words:
  "\<exists>ws. clean_text s = str_join [32] ws \<and> (\<forall>w \<in> set ws. word w)"
proof -
  define r where "r = (\<lambda>w. str_replace (py ''&gt;'') (py ''>'')
       (str_replace (py ''&lt;'') (py ''<'') (str_replace (py ''&amp;'') (py ''and'') w)))"
  have w1: "word (py ''and'')" and w2: "word (py ''<'')" and w3: "word (py ''>'')"
    by (simp_all add: word_def isspace_def)
  have "clean_text s = str_join [32] (map r (str_split (strip_tags s)))"
    unfolding r_def clean_text_eq
    using str_replace_join [of 38 "py ''amp;''" "py ''and''"]
      str_replace_join [of 38 "py ''lt;''" "py ''<''"]
      str_replace_join [of 38 "py ''gt;''" "py ''>''"]
    by (simp add: comp_def)
  moreover have "\<forall>w \<in> set (map r (str_split (strip_tags s))). word w"
  proof
    fix w assume "w \<in> set (map r (str_split (strip_tags s)))"
    then obtain v where v: "v \<in> set (str_split (strip_tags s))" and w: "w = r v" by auto
    have "word v" using v by (rule str_split_words)
    then have "word (str_replace (py ''&amp;'') (py ''and'') v)"
      using w1 word_str_replace [of v "py ''and''" 38 "py ''amp;''"] by simp
    then have "word (str_replace (py ''&lt;'') (py ''<'') (str_replace (py ''&amp;'') (py ''and'') v))"
      using w2 word_str_replace [of _ "py ''<''" 38 "py ''lt;''"] by simp
    then have "word (r v)"
      unfolding r_def using w3 word_str_replace [of _ "py ''>''" 38 "py ''gt;''"] by simp
    then show "word w" using w by simp
  qed
  ultimately show ?thesis by blast
qed

lemma clean_text_normal: "str_join [32] (str_split (clean_text s)) = clean_text s"
proof -
  obtain ws where ws: "clean_text s = str_join [32] ws" "\<forall>w \<in> set ws. word w"
    using clean_text_words by blast
  show ?thesis unfolding ws(1) using ws(2) by (simp add: str_split_join)
qed

lemma clean_text_no_entities:
  "str_replace (py ''&gt;'') (py ''>'')
     (str_replace (py ''&lt;'') (py ''<'')
        (str_replace (py ''&amp;'') (py ''and'') (clean_text s))) = clean_text s"
proof -
  have f: "\<not> sublist (py ''&amp;'') (clean_text s)" "\<not> sublist (py ''&lt;'') (clean_text s)"
    "\<not> sublist (py ''&gt;'') (clean_text s)"
    using clean_text_free by blast+
  have 1: "str_replace (py ''&amp;'') (py ''and'') (clean_text s) = clean_text s"
    using f(1) str_replace_absent [of 38 "py ''amp;''" "clean_text s" "py ''and''"] by simp
  have 2: "str_replace (py ''&lt;'') (py ''<'') (clean_text s) = clean_text s"
    using f(2) str_replace_absent [of 38 "py ''lt;''" "clean_text s" "py ''<''"] by simp
  have 3: "str_replace (py ''&gt;'') (py ''>'') (clean_text s) = clean_text s"
    using f(3) str_replace_absent [of 38 "py ''gt;''" "clean_text s" "py ''>''"] by simp
  show ?thesis by (simp only: 1 2 3)
qed

lemma clean_text_again:
  "clean_text (clean_text s) =
     str_replace (py ''&gt;'') (py ''>'')
       (str_replace (py ''&lt;'') (py ''<'')
          (str_replace (py ''&amp;'') (py ''and'')
             (str_join [32] (str_split (strip_tags (clean_text s))))))"
  by (rule clean_text_eq)

lemma clean_text_idempotent_if:
  assumes "strip_tags (clean_text s) = clean_text s"
  shows "clean_text (clean_text s) = clean_text s"
  by (simp only: clean_text_again assms clean_text_normal clean_text_no_entities)

lemma tag_rest_length: "tag_rest cs = Some rest \<Longrightarrow> length rest < length cs"
proof -
  assume a: "tag_rest cs = Some rest"
  then have r: "rest = tl (dropWhile (\<lambda>c. c \<noteq> 62) cs)"
    and ne: "dropWhile (\<lambda>c. c \<noteq> 62) cs \<noteq> []"
    by (auto simp: tag_rest_def Let_def split: if_splits)
  have "length rest < length (dropWhile (\<lambda>c. c \<noteq> 62) cs)"
    unfolding r using ne by (cases "dropWhile (\<lambda>c. c \<noteq> 62) cs") simp_all
  also have "\<dots> \<le> length cs" by (rule length_dropWhile_le)
  finally show ?thesis .
qed

lemma strip_tags_shorter: "strip_tags x = x \<or> length (strip_tags x) < length x"
proof (induction x rule: length_induct)
  case (1 x)
  show ?case
  proof (cases x)
    case Nil
    then show ?thesis by simp
  next
    case (Cons c cs)
    show ?thesis
    proof (cases "c = 60 \<and> tag_rest cs \<noteq> None")
      case True
      then obtain rest where rest: "tag_rest cs = Some rest" by auto
      have lr: "length rest < length cs" using rest by (rule tag_rest_length)
      then have "length rest < length x" using Cons by simp
      then have "strip_tags rest = rest \<or> length (strip_tags rest) < length rest"
        using 1 by blast
      then have "length (strip_tags rest) \<le> length rest" by auto
      moreover have "strip_tags x = strip_tags rest" using Cons True rest by simp
      ultimately show ?thesis using lr Cons by simp
    next
      case False
      then have e: "strip_tags x = c # strip_tags cs"
        using Cons by (cases "tag_rest cs") auto
      have "length cs < length x" using Cons by simp
      then have "strip_tags cs = cs \<or> length (strip_tags cs) < length cs" using 1 by blast
      then show ?thesis using e Cons by auto
    qed
  qed
qed

lemma strip_tags_no_lt: "60 \<notin> set x \<Longrightarrow> strip_tags x = x"
  by (induction x) simp_all

lemma str_join_Cons:
  "str_join sep (w # ws) = (if ws = [] then w else w @ sep @ str_join sep ws)"
  by (cases ws) simp_all

lemma join_split_length: "length (str_join [32] (str_split x)) \<le> length x"
proof (induction x rule: length_induct)
  case (1 x)
  show ?case
  proof (cases x)
    case Nil
    then show ?thesis by (simp add: str_split_Nil)
  next
    case (Cons c cs)
    show ?thesis
    proof (cases "isspace c")
      case True
      then have "str_split x = str_split cs" using Cons by (simp add: str_split_Cons)
      moreover have "length (str_join [32] (str_split cs)) \<le> length cs"
        using 1 Cons by simp
      ultimately show ?thesis using Cons by simp
    next
      case False
      define w where "w = c # takeWhile (\<lambda>c. \<not> isspace c) cs"
      define r where "r = dropWhile (\<lambda>c. \<not> isspace c) cs"
      have sp: "str_split x = w # str_split r"
        using Cons False by (simp add: str_split_Cons w_def r_def)
      have "takeWhile (\<lambda>c. \<not> isspace c) cs @ r = cs" unfolding r_def by simp
      then have "length (takeWhile (\<lambda>c. \<not> isspace c) cs) + length r = length cs"
        by (metis length_append)
      then have len: "length w + length r = length x" using Cons by (simp add: w_def)
      show ?thesis
      proof (cases r)
        case Nil
        then have "str_split x = [w]" using sp by (simp add: str_split_Nil)
        then show ?thesis using len by simp
      next
        case (Cons d r')
        have "\<not> (\<not> isspace (hd r))"
          unfolding r_def using Cons r_def hd_dropWhile [of "\<lambda>c. \<not> isspace c" cs] by auto
        then have "isspace d" using Cons by simp
        then have s2: "str_split r = str_split r'" using Cons by (simp add: str_split_Cons)
        have "length r' < length x" using len Cons by simp
        then have ih: "length (str_join [32] (str_split r')) \<le> length r'" using 1 by blast
        have "length (str_join [32] (w # str_split r')) \<le> length w + 1 + length r'"
          using ih by (simp add: str_join_Cons)
        then show ?thesis using sp s2 len Cons by simp
      qed
    qed
  qed
qed

lemma str_replace_length:
  assumes "length new \<le> Suc (length old)"
  shows "length (str_replace (a # old) new s) \<le> length s"
proof (induction s rule: length_induct)
  case (1 s)
  show ?case
  proof (cases s)
    case Nil
    then show ?thesis by (simp add: str_replace_Nil)
  next
    case (Cons c cs)
    show ?thesis
    proof (cases "prefix (a # old) (c # cs)")
      case True
      then have e: "str_replace (a # old) new s =
          new @ str_replace (a # old) new (drop (length old) cs)"
        using Cons by (simp add: str_replace_Cons del: Cons_prefix_Cons)
      have "length (a # old) \<le> length (c # cs)" using True by (rule prefix_length_le)
      then have lo: "length old \<le> length cs" by simp
      have "length (drop (length old) cs) < length s" using Cons by simp
      then have "length (str_replace (a # old) new (drop (length old) cs)) \<le>
                 length (drop (length old) cs)"
        using 1 by blast
      then have "length (str_replace (a # old) new s) \<le> length new + (length cs - length old)"
        unfolding e by simp
      then show ?thesis using assms lo Cons by simp
    next
      case False
      then have e: "str_replace (a # old) new s = c # str_replace (a # old) new cs"
        using Cons by (simp add: str_replace_Cons del: Cons_prefix_Cons)
      have "length cs < length s" using Cons by simp
      then have "length (str_replace (a # old) new cs) \<le> length cs" using 1 by blast
      then show ?thesis unfolding e using Cons by simp
    qed
  qed
qed

lemma clean_text_length: "length (clean_text s) \<le> length (strip_tags s)"
proof -
  define x where "x = str_join [32] (str_split (strip_tags s))"
  define y1 where "y1 = str_replace (py ''&amp;'') (py ''and'') x"
  define y2 where "y2 = str_replace (py ''&lt;'') (py ''<'') y1"
  define y3 where "y3 = str_replace (py ''&gt;'') (py ''>'') y2"
  have c: "clean_text s = y3" unfolding y3_def y2_def y1_def x_def by (rule clean_text_eq)
  have "length y3 \<le> length y2"
    unfolding y3_def using str_replace_length [of "py ''>''" "py ''gt;''" 38 y2] by simp
  also have "\<dots> \<le> length y1"
    unfolding y2_def using str_replace_length [of "py ''<''" "py ''lt;''" 38 y1] by simp
  also have "\<dots> \<le> length x"
    unfolding y1_def using str_replace_length [of "py ''and''" "py ''amp;''" 38 x] by simp
  also have "\<dots> \<le> length (strip_tags s)" unfolding x_def by (rule join_split_length)
  finally show ?thesis unfolding c .
qed

lemma clean_text_idempotent_only_if:
  assumes "clean_text (clean_text s) = clean_text s"
  shows "strip_tags (clean_text s) = clean_text s"
proof (rule ccontr)
  assume "strip_tags (clean_text s) \<noteq> clean_text s"
  then have "length (strip_tags (clean_text s)) < length (clean_text s)"
    using strip_tags_shorter [of "clean_text s"] by simp
  moreover have "length (clean_text (clean_text s)) \<le> length (strip_tags (clean_text s))"
    by (rule clean_text_length)
  ultimately show False using assms by simp
qed

lemma demo_clean_amp: "clean_text (py ''a <b>&amp;</b>  b'') = py ''a and b''"
  by (simp add: eval_simps)

lemma demo_clean_lt: "clean_text (py ''&lt;b&gt;'') = py ''<b>''"
  by (simp add: eval_simps)

lemma demo_clean_tag: "clean_text (py ''<b>'') = []"
  by (simp add: eval_simps)

text \<open>
  C4, as the code has it. Cleaning a cleaned text changes nothing exactly when the
  cleaned text has no tag left to remove; this is so whenever the cleaned text has no
  \<open><\<close>. The entities are decoded after the tags are removed, so a decoded \<open>&lt;\<close> and
  \<open>&gt;\<close> can form a tag that a second cleaning removes.
\<close>

theorem clean_text_idempotent_iff_no_tag:
  "(clean_text (clean_text s) = clean_text s \<longleftrightarrow>
      strip_tags (clean_text s) = clean_text s) \<and>
   (60 \<notin> set (clean_text s) \<longrightarrow> clean_text (clean_text s) = clean_text s)"
proof -
  have a: "clean_text (clean_text s) = clean_text s \<longleftrightarrow>
      strip_tags (clean_text s) = clean_text s"
    using clean_text_idempotent_if clean_text_idempotent_only_if by blast
  have b: "60 \<notin> set (clean_text s) \<longrightarrow> clean_text (clean_text s) = clean_text s"
    using strip_tags_no_lt clean_text_idempotent_if by blast
  show ?thesis using a b by (rule conjI)
qed

theorem clean_text_idempotent_iff_no_tag_witness:
  "clean_text (py ''a <b>&amp;</b>  b'') = py ''a and b'' \<and>
   60 \<notin> set (clean_text (py ''a <b>&amp;</b>  b'')) \<and>
   clean_text (clean_text (py ''a <b>&amp;</b>  b'')) = clean_text (py ''a <b>&amp;</b>  b'')"
proof -
  have n: "60 \<notin> set (clean_text (py ''a <b>&amp;</b>  b''))"
    unfolding demo_clean_amp by simp
  have "clean_text (clean_text (py ''a <b>&amp;</b>  b'')) = clean_text (py ''a <b>&amp;</b>  b'')"
    using clean_text_idempotent_iff_no_tag [of "py ''a <b>&amp;</b>  b''"] n by blast
  then show ?thesis using demo_clean_amp n by (intro conjI)
qed

text \<open>
  The claim as worded fails at \<open>&lt;b&gt;\<close>: it cleans to \<open><b>\<close>, which cleans to the
  empty string.
\<close>

theorem clean_text_not_idempotent_counterexample:
  "clean_text (py ''&lt;b&gt;'') = py ''<b>'' \<and>
   clean_text (clean_text (py ''&lt;b&gt;'')) = [] \<and>
   clean_text (clean_text (py ''&lt;b&gt;'')) \<noteq> clean_text (py ''&lt;b&gt;'')"
proof -
  have "clean_text (clean_text (py ''&lt;b&gt;'')) = []"
    unfolding demo_clean_lt by (rule demo_clean_tag)
  then show ?thesis using demo_clean_lt by simp
qed

end
